theory Spec2Isabelle
  imports Main "HOL-Library.AList" "HOL-Library.Product_Lexorder"
begin

section \<open>Python values and errors\<close>

text \<open>
  The scripts raise two kinds of exception on their own inputs: \<open>max()\<close> of an empty
  sequence raises \<open>ValueError\<close>, a dictionary read at a missing key raises \<open>KeyError\<close>.
  Python integers are unbounded and are modelled by \<open>int\<close>; indices produced by
  \<open>enumerate\<close> and \<open>range\<close> are natural numbers.
\<close>

datatype error = ValueError | KeyError

text \<open>\<open>range(n)\<close> for a Python integer \<open>n\<close>: empty when \<open>n \<le> 0\<close>.\<close>

definition range_py :: "int \<Rightarrow> int list" where
  "range_py n = map int [0..<nat n]"

text \<open>A list comprehension whose element expression may raise: the first error wins.\<close>

fun collect :: "('a \<Rightarrow> error + 'b) \<Rightarrow> 'a list \<Rightarrow> error + 'b list" where
  "collect f [] = Inr []"
| "collect f (x # xs) =
     (case f x of
        Inl e \<Rightarrow> Inl e
      | Inr y \<Rightarrow> (case collect f xs of Inl e \<Rightarrow> Inl e | Inr ys \<Rightarrow> Inr (y # ys)))"

section \<open>The constraint model handed to the solver\<close>

text \<open>
  \<open>cp_model.CpModel\<close> is a container that the builder fills through its methods: integer
  variables with bounds, interval variables, constraints (each with an optional list of
  enforcement literals, set by \<open>OnlyEnforceIf\<close>) and one objective. The type parameter
  \<open>'v\<close> is the type of variable names of the script at hand.
\<close>

datatype 'v expr = Var 'v | Const int

datatype 'v interval_var =
  IntervalVar (iv_start: 'v) (iv_size: "'v expr") (iv_end: 'v)

datatype 'v ct =
    is_NoOverlap: NoOverlap "'v interval_var list"
  | is_GreaterEq: GreaterEq 'v 'v
  | is_MaxEquality: MaxEquality 'v "'v list"
  | is_SumEq: SumEq "'v list" int
  | is_VarEqConst: VarEqConst 'v int
  | is_VarEqVar: VarEqVar 'v 'v
  | is_NoOverlap2D: NoOverlap2D "'v interval_var list" "'v interval_var list"

datatype 'v constraint = Constraint (ct_of: "'v ct") (enforcement: "'v list")

record 'v cp_model =
  variables :: "('v \<times> int \<times> int) list"
  intervals :: "'v interval_var list"
  constraints :: "'v constraint list"
  objective :: "'v option"

definition CpModel :: "'v cp_model" where
  "CpModel = \<lparr>variables = [], intervals = [], constraints = [], objective = None\<rparr>"

definition NewIntVar :: "int \<Rightarrow> int \<Rightarrow> 'v \<Rightarrow> 'v cp_model \<Rightarrow> 'v cp_model" where
  "NewIntVar lb ub name m = m\<lparr>variables := variables m @ [(name, lb, ub)]\<rparr>"

definition NewBoolVar :: "'v \<Rightarrow> 'v cp_model \<Rightarrow> 'v cp_model" where
  "NewBoolVar name m = NewIntVar 0 1 name m"

definition NewIntervalVar :: "'v interval_var \<Rightarrow> 'v cp_model \<Rightarrow> 'v cp_model" where
  "NewIntervalVar iv m = m\<lparr>intervals := intervals m @ [iv]\<rparr>"

definition Add :: "'v ct \<Rightarrow> 'v cp_model \<Rightarrow> 'v cp_model" where
  "Add c m = m\<lparr>constraints := constraints m @ [Constraint c []]\<rparr>"

text \<open>\<open>model.Add(c).OnlyEnforceIf(lit)\<close>: the constraint is stored with its literal.\<close>

definition Add_OnlyEnforceIf :: "'v ct \<Rightarrow> 'v \<Rightarrow> 'v cp_model \<Rightarrow> 'v cp_model" where
  "Add_OnlyEnforceIf c lit m = m\<lparr>constraints := constraints m @ [Constraint c [lit]]\<rparr>"

definition AddNoOverlap :: "'v interval_var list \<Rightarrow> 'v cp_model \<Rightarrow> 'v cp_model" where
  "AddNoOverlap interval_vars m = Add (NoOverlap interval_vars) m"

definition AddMaxEquality :: "'v \<Rightarrow> 'v list \<Rightarrow> 'v cp_model \<Rightarrow> 'v cp_model" where
  "AddMaxEquality target exprs m = Add (MaxEquality target exprs) m"

definition AddNoOverlap2D ::
  "'v interval_var list \<Rightarrow> 'v interval_var list \<Rightarrow> 'v cp_model \<Rightarrow> 'v cp_model" where
  "AddNoOverlap2D xs ys m = Add (NoOverlap2D xs ys) m"

definition Minimize :: "'v \<Rightarrow> 'v cp_model \<Rightarrow> 'v cp_model" where
  "Minimize v m = m\<lparr>objective := Some v\<rparr>"

subsection \<open>What an assignment has to satisfy\<close>

text \<open>
  The solver is a black box; what it promises for an OPTIMAL or FEASIBLE status is an
  assignment of an integer to every variable that respects the bounds, the link
  \<open>start + size = end\<close> of every interval variable, and every constraint whose
  enforcement literals are all true. Two intervals are disjoint when one starts no
  earlier than the other ends.
\<close>

fun expr_val :: "('v \<Rightarrow> int) \<Rightarrow> 'v expr \<Rightarrow> int" where
  "expr_val \<sigma> (Var v) = \<sigma> v"
| "expr_val \<sigma> (Const c) = c"

definition interval_ok :: "('v \<Rightarrow> int) \<Rightarrow> 'v interval_var \<Rightarrow> bool" where
  "interval_ok \<sigma> iv \<longleftrightarrow> \<sigma> (iv_start iv) + expr_val \<sigma> (iv_size iv) = \<sigma> (iv_end iv)"

definition disjoint :: "('v \<Rightarrow> int) \<Rightarrow> 'v interval_var \<Rightarrow> 'v interval_var \<Rightarrow> bool" where
  "disjoint \<sigma> a b \<longleftrightarrow> \<sigma> (iv_end b) \<le> \<sigma> (iv_start a) \<or> \<sigma> (iv_end a) \<le> \<sigma> (iv_start b)"

fun all_pairs :: "('a \<Rightarrow> 'a \<Rightarrow> bool) \<Rightarrow> 'a list \<Rightarrow> bool" where
  "all_pairs P [] = True"
| "all_pairs P (x # xs) = ((\<forall>y\<in>set xs. P x y) \<and> all_pairs P xs)"

fun ct_holds :: "('v \<Rightarrow> int) \<Rightarrow> 'v ct \<Rightarrow> bool" where
  "ct_holds \<sigma> (NoOverlap ivs) = all_pairs (disjoint \<sigma>) ivs"
| "ct_holds \<sigma> (GreaterEq a b) = (\<sigma> b \<le> \<sigma> a)"
| "ct_holds \<sigma> (MaxEquality t es) = ((\<exists>e\<in>set es. \<sigma> t = \<sigma> e) \<and> (\<forall>e\<in>set es. \<sigma> e \<le> \<sigma> t))"
| "ct_holds \<sigma> (SumEq vs c) = (sum_list (map \<sigma> vs) = c)"
| "ct_holds \<sigma> (VarEqConst v c) = (\<sigma> v = c)"
| "ct_holds \<sigma> (VarEqVar a b) = (\<sigma> a = \<sigma> b)"
| "ct_holds \<sigma> (NoOverlap2D xs ys) =
     all_pairs (\<lambda>p q. disjoint \<sigma> (fst p) (fst q) \<or> disjoint \<sigma> (snd p) (snd q)) (zip xs ys)"

definition constraint_holds :: "('v \<Rightarrow> int) \<Rightarrow> 'v constraint \<Rightarrow> bool" where
  "constraint_holds \<sigma> c \<longleftrightarrow> ((\<forall>l\<in>set (enforcement c). \<sigma> l = 1) \<longrightarrow> ct_holds \<sigma> (ct_of c))"

definition satisfies :: "('v \<Rightarrow> int) \<Rightarrow> 'v cp_model \<Rightarrow> bool" where
  "satisfies \<sigma> m \<longleftrightarrow>
     (\<forall>b\<in>set (variables m). fst (snd b) \<le> \<sigma> (fst b) \<and> \<sigma> (fst b) \<le> snd (snd b)) \<and>
     (\<forall>iv\<in>set (intervals m). interval_ok \<sigma> iv) \<and>
     (\<forall>c\<in>set (constraints m). constraint_holds \<sigma> c)"

section \<open>JobShop.py: the model builder\<close>

text \<open>
  A task is the pair \<open>(machine, duration)\<close>; \<open>jobs_data\<close> is a list of jobs, each a list
  of tasks. The variables are named \<open>start_j_t\<close>, \<open>end_j_t\<close> and \<open>makespan\<close>. Several
  scripts define a \<open>build_model\<close>; each function carries the name of its script here.
\<close>

datatype js_var = StartVar nat nat | EndVar nat nat | MakespanVar

datatype task_type =
  Task_type (tt_start: js_var) (tt_end: js_var) (tt_interval: "js_var interval_var")

record build_state =
  model :: "js_var cp_model"
  all_tasks :: "nat \<times> nat \<rightharpoonup> task_type"
  machine_to_intervals :: "int \<Rightarrow> js_var interval_var list"

text \<open>The body of the inner loop that creates the variables of one task.\<close>

definition create_task :: "int \<Rightarrow> nat \<Rightarrow> nat \<times> int \<times> int \<Rightarrow> build_state \<Rightarrow> build_state" where
  "create_task horizon job_id = (\<lambda>(task_id, task) s.
     let machine = fst task;
         duration = snd task;
         start_var = StartVar job_id task_id;
         end_var = EndVar job_id task_id;
         interval_var = IntervalVar start_var (Const duration) end_var;
         m = NewIntervalVar interval_var
               (NewIntVar 0 horizon end_var (NewIntVar 0 horizon start_var (model s)))
     in s\<lparr>model := m,
          machine_to_intervals :=
            (machine_to_intervals s)(machine := machine_to_intervals s machine @ [interval_var]),
          all_tasks :=
            (all_tasks s)((job_id, task_id) \<mapsto> Task_type start_var end_var interval_var)\<rparr>)"

text \<open>
  The body of the precedence loop: both dictionary reads can raise \<open>KeyError\<close>; an error
  raised in an earlier iteration is passed on.
\<close>

definition add_precedence ::
  "(nat \<times> nat \<rightharpoonup> task_type) \<Rightarrow> nat \<Rightarrow> nat \<Rightarrow> error + js_var cp_model \<Rightarrow> error + js_var cp_model" where
  "add_precedence tasks job_id task_id acc =
     (case acc of
        Inl e \<Rightarrow> Inl e
      | Inr m \<Rightarrow>
          (case tasks (job_id, task_id + 1) of
             None \<Rightarrow> Inl KeyError
           | Some nxt \<Rightarrow>
               (case tasks (job_id, task_id) of
                  None \<Rightarrow> Inl KeyError
                | Some cur \<Rightarrow> Inr (Add (GreaterEq (tt_start nxt) (tt_end cur)) m))))"

text \<open>
  \<open>all_tasks[job_id, len(job) - 1].end\<close>: for an empty job the key is \<open>(job_id, -1)\<close>,
  which the dictionary never holds because task ids come from \<open>enumerate\<close>.
\<close>

definition last_task_end :: "(nat \<times> nat \<rightharpoonup> task_type) \<Rightarrow> nat \<times> (int \<times> int) list \<Rightarrow> error + js_var" where
  "last_task_end tasks = (\<lambda>(job_id, job).
     if length job = 0 then Inl KeyError
     else (case tasks (job_id, length job - 1) of
             None \<Rightarrow> Inl KeyError
           | Some t \<Rightarrow> Inr (tt_end t)))"

definition JobShop_build_model ::
  "(int \<times> int) list list \<Rightarrow>
   error + (js_var cp_model \<times> (nat \<times> nat \<rightharpoonup> task_type) \<times> int list)" where
  "JobShop_build_model jobs_data =
     (if concat jobs_data = [] then Inl ValueError
      else
        let machines_count = 1 + Max (set (map fst (concat jobs_data)));
            all_machines = range_py machines_count;
            horizon = sum_list (map snd (concat jobs_data));
            s = fold (\<lambda>(job_id, job). fold (create_task horizon job_id) (enumerate 0 job))
                  (enumerate 0 jobs_data)
                  \<lparr>model = CpModel, all_tasks = Map.empty, machine_to_intervals = (\<lambda>_. [])\<rparr>;
            model1 = fold (\<lambda>machine. AddNoOverlap (machine_to_intervals s machine))
                       all_machines (model s)
        in case fold (\<lambda>(job_id, job).
                        fold (add_precedence (all_tasks s) job_id) [0..<length job - 1])
                  (enumerate 0 jobs_data) (Inr model1) of
             Inl e \<Rightarrow> Inl e
           | Inr model2 \<Rightarrow>
               (let obj_var = MakespanVar;
                    model3 = NewIntVar 0 horizon obj_var model2
                in case collect (last_task_end (all_tasks s)) (enumerate 0 jobs_data) of
                     Inl e \<Rightarrow> Inl e
                   | Inr exprs \<Rightarrow>
                       Inr (Minimize obj_var (AddMaxEquality obj_var exprs model3),
                            all_tasks s, all_machines)))"

text \<open>
  The two nested \<open>for ... in enumerate(...)\<close> loops of the builder and of the decoder visit
  the triples \<open>(job_id, task_id, task)\<close> in this order.
\<close>

fun tasks_from :: "nat \<Rightarrow> 'a list list \<Rightarrow> (nat \<times> nat \<times> 'a) list" where
  "tasks_from n [] = []"
| "tasks_from n (job # jobs) =
     map (Pair n) (enumerate 0 job) @ tasks_from (Suc n) jobs"

text \<open>The dictionary key, the interval variable, the two bounded variables and the
  \<open>all_tasks\<close> entry that the builder creates for one visited task.\<close>

definition task_key :: "nat \<times> nat \<times> 'a \<Rightarrow> nat \<times> nat" where
  "task_key x = (fst x, fst (snd x))"

definition task_interval :: "nat \<times> nat \<times> int \<times> int \<Rightarrow> js_var interval_var" where
  "task_interval x =
     IntervalVar (StartVar (fst x) (fst (snd x))) (Const (snd (snd (snd x)))) (EndVar (fst x) (fst (snd x)))"

definition task_bounds :: "int \<Rightarrow> nat \<times> nat \<times> int \<times> int \<Rightarrow> (js_var \<times> int \<times> int) list" where
  "task_bounds h x = [(StartVar (fst x) (fst (snd x)), 0, h), (EndVar (fst x) (fst (snd x)), 0, h)]"

definition task_entry :: "nat \<times> nat \<times> int \<times> int \<Rightarrow> task_type" where
  "task_entry x = Task_type (StartVar (fst x) (fst (snd x))) (EndVar (fst x) (fst (snd x))) (task_interval x)"

text \<open>\<open>task[0] == machine\<close> for a visited task.\<close>

definition on_machine :: "int \<Rightarrow> nat \<times> nat \<times> int \<times> int \<Rightarrow> bool" where
  "on_machine machine x \<longleftrightarrow> fst (snd (snd x)) = machine"

text \<open>The variable-creating loop, run over the visiting order.\<close>

definition create_all :: "int \<Rightarrow> (nat \<times> nat \<times> int \<times> int) list \<Rightarrow> build_state \<Rightarrow> build_state" where
  "create_all h xs s = fold (\<lambda>(j, t, task). create_task h j (t, task)) xs s"

text \<open>The dictionary of created tasks, in closed form.\<close>

definition task_table :: "(int \<times> int) list list \<Rightarrow> nat \<times> nat \<rightharpoonup> task_type" where
  "task_table jobs = (\<lambda>(j, t).
     if j < length jobs \<and> t < length (jobs ! j) then Some (task_entry (j, t, jobs ! j ! t)) else None)"

text \<open>The precedence constraints that the third loop adds, job by job.\<close>

definition precedences :: "nat \<Rightarrow> (int \<times> int) list list \<Rightarrow> js_var constraint list" where
  "precedences n jobs =
     concat (map (\<lambda>(job_id, job).
                    map (\<lambda>task_id. Constraint (GreaterEq (StartVar job_id (task_id + 1)) (EndVar job_id task_id)) [])
                        [0..<length job - 1])
                 (enumerate n jobs))"

text \<open>The builder's \<open>machines_count\<close> and \<open>horizon\<close>, and the model it returns in closed
  form (shown equal to the result of the loops in \<open>JobShop_build_model_eq\<close>).\<close>

definition machines_count :: "(int \<times> int) list list \<Rightarrow> int" where
  "machines_count jobs = 1 + Max (set (map fst (concat jobs)))"

definition horizon :: "(int \<times> int) list list \<Rightarrow> int" where
  "horizon jobs = sum_list (map snd (concat jobs))"

definition built_model :: "(int \<times> int) list list \<Rightarrow> js_var cp_model" where
  "built_model jobs =
     \<lparr>variables = concat (map (task_bounds (horizon jobs)) (tasks_from 0 jobs)) @
                   [(MakespanVar, 0, horizon jobs)],
      intervals = map task_interval (tasks_from 0 jobs),
      constraints =
        map (\<lambda>machine. Constraint
               (NoOverlap (map task_interval (filter (on_machine machine) (tasks_from 0 jobs)))) [])
            (range_py (machines_count jobs)) @
        precedences 0 jobs @
        [Constraint (MaxEquality MakespanVar
           (map (\<lambda>(job_id, job). EndVar job_id (length job - 1)) (enumerate 0 jobs))) []],
      objective = Some MakespanVar\<rparr>"

text \<open>The precedence constraint between task \<open>i\<close> and task \<open>i + 1\<close> of job \<open>j\<close>.\<close>

definition precedence :: "nat \<Rightarrow> nat \<Rightarrow> js_var constraint" where
  "precedence j i = Constraint (GreaterEq (StartVar j (i + 1)) (EndVar j i)) []"

text \<open>The first component of the builder's result, for stating concrete runs.\<close>

definition model_of :: "error + ('m \<times> 't \<times> 'r) \<Rightarrow> error + 'm" where
  "model_of r = map_sum id fst r"

text \<open>
  The serial schedule: the tasks run back to back in the order of the input, so a task
  starts when all tasks before it (in the order of their keys \<open>(job_id, task_id)\<close>, which
  is the visiting order) have run, and the makespan is the latest end of a job's last
  task.
\<close>

definition task_duration :: "nat \<times> nat \<times> int \<times> int \<Rightarrow> int" where
  "task_duration x = snd (snd (snd x))"

definition serial_start :: "(int \<times> int) list list \<Rightarrow> nat \<Rightarrow> nat \<Rightarrow> int" where
  "serial_start jobs j t =
     sum_list (map task_duration (filter (\<lambda>x. task_key x < (j, t)) (tasks_from 0 jobs)))"

definition serial_end :: "(int \<times> int) list list \<Rightarrow> nat \<Rightarrow> nat \<Rightarrow> int" where
  "serial_end jobs j t =
     sum_list (map task_duration (filter (\<lambda>x. task_key x \<le> (j, t)) (tasks_from 0 jobs)))"

fun serial_schedule :: "(int \<times> int) list list \<Rightarrow> js_var \<Rightarrow> int" where
  "serial_schedule jobs (StartVar j t) = serial_start jobs j t"
| "serial_schedule jobs (EndVar j t) = serial_end jobs j t"
| "serial_schedule jobs MakespanVar =
     Max (set (map (\<lambda>(job_id, job). serial_end jobs job_id (length job - 1)) (enumerate 0 jobs)))"

section \<open>JobShop.py: the solution decoder\<close>

text \<open>
  What the script reads from the solver after \<open>Solve\<close>: the status, the value of every
  variable and the objective value.
\<close>

datatype status = UNKNOWN | MODEL_INVALID | FEASIBLE | INFEASIBLE | OPTIMAL

record 'v solver =
  Value :: "'v \<Rightarrow> int"
  ObjectiveValue :: int

text \<open>
  \<open>assigned_task_type\<close> is the named tuple \<open>(start, job, index, duration)\<close>; tuples sort
  lexicographically. The output dictionary maps \<open>'Machine' + str(machine)\<close> to a
  dictionary from \<open>'job:{},task:{}'\<close> to \<open>'start:{},end:{}'\<close>; both formats are injective
  in their arguments, so the keys are modelled by the machine and by the pair
  \<open>(job, index)\<close>, the value by the pair \<open>(start, end)\<close>. Dictionaries keep insertion
  order; storing under a key already present keeps its position.
\<close>

type_synonym assigned_task_type = "int \<times> nat \<times> nat \<times> int"

type_synonym timetable = "(int \<times> ((nat \<times> nat) \<times> (int \<times> int)) list) list"

text \<open>The body of the loop that collects the assigned tasks per machine.\<close>

definition assign_task ::
  "js_var solver \<Rightarrow> (nat \<times> nat \<rightharpoonup> task_type) \<Rightarrow> nat \<Rightarrow> nat \<times> int \<times> int \<Rightarrow>
   error + (int \<Rightarrow> assigned_task_type list) \<Rightarrow> error + (int \<Rightarrow> assigned_task_type list)" where
  "assign_task solver tasks job_id = (\<lambda>(task_id, task) acc.
     case acc of
       Inl e \<Rightarrow> Inl e
     | Inr assigned_jobs \<Rightarrow>
         (case tasks (job_id, task_id) of
            None \<Rightarrow> Inl KeyError
          | Some tt \<Rightarrow>
              (let machine = fst task
               in Inr (assigned_jobs(machine := assigned_jobs machine @
                         [(Value solver (tt_start tt), job_id, task_id, snd task)])))))"

text \<open>The output lines of one machine: its assigned tasks, sorted, stored one by one.\<close>

definition machine_lines :: "assigned_task_type list \<Rightarrow> ((nat \<times> nat) \<times> (int \<times> int)) list" where
  "machine_lines assigned =
     fold (\<lambda>assigned_task.
             let start = fst assigned_task;
                 duration = snd (snd (snd assigned_task))
             in AList.update (fst (snd assigned_task), fst (snd (snd assigned_task)))
                  (start, start + duration))
          (sort assigned) []"

text \<open>
  The decoder reads \<open>jobs_data\<close> as a global; it is a parameter here. For any other
  status the function falls off its end and returns \<open>None\<close>.
\<close>

definition JobShop_build_response ::
  "(int \<times> int) list list \<Rightarrow> js_var solver \<Rightarrow> status \<Rightarrow> (nat \<times> nat \<rightharpoonup> task_type) \<Rightarrow> int list \<Rightarrow>
   error + (int \<times> timetable) option" where
  "JobShop_build_response jobs_data solver status tasks all_machines =
     (if status = OPTIMAL \<or> status = FEASIBLE then
        (case fold (\<lambda>(job_id, job). fold (assign_task solver tasks job_id) (enumerate 0 job))
                (enumerate 0 jobs_data) (Inr (\<lambda>_. [])) of
           Inl e \<Rightarrow> Inl e
         | Inr assigned_jobs \<Rightarrow>
             (let output_dict =
                    fold (\<lambda>machine. AList.update machine (machine_lines (assigned_jobs machine)))
                      all_machines [];
                  optimal_makespan = ObjectiveValue solver
              in Inr (Some (optimal_makespan, output_dict))))
      else Inr None)"

text \<open>The assigned task of a visited task under the solver's values.\<close>

definition assigned_task :: "(js_var \<Rightarrow> int) \<Rightarrow> nat \<times> nat \<times> int \<times> int \<Rightarrow> assigned_task_type" where
  "assigned_task \<sigma> x = (\<sigma> (StartVar (fst x) (fst (snd x))), fst x, fst (snd x), snd (snd (snd x)))"

definition timetable_line :: "assigned_task_type \<Rightarrow> (nat \<times> nat) \<times> (int \<times> int)" where
  "timetable_line a = ((fst (snd a), fst (snd (snd a))), (fst a, fst a + snd (snd (snd a))))"

text \<open>The timetable of the decoder in closed form.\<close>

definition decoded_timetable :: "(int \<times> int) list list \<Rightarrow> (js_var \<Rightarrow> int) \<Rightarrow> int list \<Rightarrow> timetable" where
  "decoded_timetable jobs \<sigma> machines =
     map (\<lambda>machine. (machine,
            map timetable_line
              (sort (map (assigned_task \<sigma>) (filter (on_machine machine) (tasks_from 0 jobs))))))
         machines"

text \<open>
  The two invariants of a decoded timetable and the makespan recomputed from it: no two
  lines of one machine overlap; within a job, task \<open>i + 1\<close> starts no earlier than task
  \<open>i\<close> ends; the makespan is the latest end over all lines.
\<close>

definition timetable_lines :: "timetable \<Rightarrow> ((nat \<times> nat) \<times> (int \<times> int)) list" where
  "timetable_lines tt = concat (map snd tt)"

definition timetable_no_overlap :: "timetable \<Rightarrow> bool" where
  "timetable_no_overlap tt \<longleftrightarrow>
     (\<forall>entry\<in>set tt.
        all_pairs (\<lambda>a b. snd (snd b) \<le> fst (snd a) \<or> snd (snd a) \<le> fst (snd b)) (snd entry))"

definition timetable_precedence :: "timetable \<Rightarrow> bool" where
  "timetable_precedence tt \<longleftrightarrow>
     (\<forall>a\<in>set (timetable_lines tt). \<forall>b\<in>set (timetable_lines tt).
        fst (fst b) = fst (fst a) \<and> snd (fst b) = snd (fst a) + 1 \<longrightarrow> snd (snd a) \<le> fst (snd b))"

definition timetable_makespan :: "timetable \<Rightarrow> int" where
  "timetable_makespan tt = Max (set (map (\<lambda>l. snd (snd l)) (timetable_lines tt)))"

text \<open>The input of the script's \<open>__main__\<close> block.\<close>

definition jobs_data_main :: "(int \<times> int) list list" where
  "jobs_data_main = [[(0, 3), (1, 2), (2, 2)], [(0, 2), (2, 1), (1, 4)], [(1, 4), (2, 3)]]"

text \<open>A schedule of length 11 for it, given by the start and end times of its eight
  tasks; only the values at the variables of the instance matter.\<close>

definition reference_schedule :: "js_var \<Rightarrow> int" where
  "reference_schedule v =
     (case v of
        StartVar j t \<Rightarrow> [[2, 5, 7], [0, 2, 7], [0, 4]] ! j ! t
      | EndVar j t \<Rightarrow> [[5, 7, 9], [2, 3, 11], [4, 7]] ! j ! t
      | MakespanVar \<Rightarrow> 11)"

text \<open>
  The solver's contract for the status OPTIMAL: the values satisfy the model, the
  objective value is the value of the minimised variable, and no satisfying assignment
  has a smaller one.
\<close>

definition optimal_answer :: "'v cp_model \<Rightarrow> 'v solver \<Rightarrow> bool" where
  "optimal_answer m solver \<longleftrightarrow>
     satisfies (Value solver) m \<and>
     (\<forall>v. objective m = Some v \<longrightarrow>
        ObjectiveValue solver = Value solver v \<and>
        (\<forall>\<sigma>. satisfies \<sigma> m \<longrightarrow> Value solver v \<le> \<sigma> v))"

text \<open>The solver's answer that carries the schedule of length 11.\<close>

definition reference_answer :: "js_var solver" where
  "reference_answer = \<lparr>Value = reference_schedule, ObjectiveValue = 11\<rparr>"

text \<open>An answer whose objective value disagrees with its own start times.\<close>

definition inconsistent_answer :: "js_var solver" where
  "inconsistent_answer = \<lparr>Value = reference_schedule, ObjectiveValue = 99\<rparr>"

section \<open>SchedulingRoman.py: the batch model builder\<close>

text \<open>
  The input dictionary of the batch variant. \<open>Tin\<close> and \<open>Tout\<close> are dictionaries from
  option names to durations; reading them at a missing name raises \<open>KeyError\<close>.
\<close>

record input_data =
  NoBatches :: int
  Inputs :: "string list"
  Outputs :: "string list"
  V :: int
  VMaxBuffer :: int
  Tin :: "string \<rightharpoonup> int"
  Tout :: "string \<rightharpoonup> int"
  Tmin :: int
  Tmax :: int

text \<open>
  The variables are created with empty names and kept in dictionaries \<open>A_I\<close>, \<open>A_O\<close>,
  \<open>S_INPUT\<close>, ...; a variable is named here by its dictionary and its key. Every read of
  these dictionaries in the builder uses a key of the ranges they were built over, so
  only the reads of \<open>T_in\<close>, \<open>T_out\<close> and \<open>E_BUFFER[number_batches - 1]\<close> can raise. When
  an option name occurs twice in \<open>Inputs\<close>, the dictionary keeps the variable created
  last for it; the earlier one stays in the model, bounded and otherwise unconstrained,
  and is identified with the kept one here. The builder returns the model together with
  the dictionary of these dictionaries; only the model is kept here, the variables being
  their own names.
\<close>

datatype sr_var =
    A_I nat string | A_O nat string
  | S_INPUT nat | S_BUFFER nat | S_OUTPUT nat
  | D_INPUT nat | D_BUFFER nat | D_OUTPUT nat
  | E_INPUT nat | E_BUFFER nat | E_OUTPUT nat
  | V_BUFFER_1 nat | V_BUFFER_2 nat

text \<open>A dictionary comprehension \<open>{i: model.NewIntVar(lb, ub, '') for i in ...}\<close>.\<close>

definition new_int_vars :: "int \<Rightarrow> int \<Rightarrow> 'v list \<Rightarrow> 'v cp_model \<Rightarrow> 'v cp_model" where
  "new_int_vars lb ub names m = fold (NewIntVar lb ub) names m"

definition new_bool_vars :: "'v list \<Rightarrow> 'v cp_model \<Rightarrow> 'v cp_model" where
  "new_bool_vars names m = fold NewBoolVar names m"

definition new_interval_vars :: "'v interval_var list \<Rightarrow> 'v cp_model \<Rightarrow> 'v cp_model" where
  "new_interval_vars ivs m = fold NewIntervalVar ivs m"

text \<open>
  One step of the loops over the options: \<open>model.Add(D_INPUT[i] == T[k]).OnlyEnforceIf(lit)\<close>;
  an error of an earlier step is passed on.
\<close>

definition add_conditional ::
  "(string \<rightharpoonup> int) \<Rightarrow> (string \<Rightarrow> sr_var) \<Rightarrow> sr_var \<Rightarrow> string \<Rightarrow>
   error + sr_var cp_model \<Rightarrow> error + sr_var cp_model" where
  "add_conditional T lit duration k acc =
     (case acc of
        Inl e \<Rightarrow> Inl e
      | Inr m \<Rightarrow>
          (case T k of
             None \<Rightarrow> Inl KeyError
           | Some d \<Rightarrow> Inr (Add_OnlyEnforceIf (VarEqConst duration d) (lit k) m)))"

definition SchedulingRoman_build_model :: "input_data \<Rightarrow> error + sr_var cp_model" where
  "SchedulingRoman_build_model input_data_instance =
     (let inputs = Inputs input_data_instance;
          outputs = Outputs input_data_instance;
          t_min = Tmin input_data_instance;
          t_max = Tmax input_data_instance;
          V_max_buffer = VMaxBuffer input_data_instance;
          number_batches = NoBatches input_data_instance;
          T_in = Tin input_data_instance;
          T_out = Tout input_data_instance;
          batches = [0..<nat number_batches];
          m1 = new_bool_vars (concat (map (\<lambda>i. map (A_I i) inputs) batches)) CpModel;
          m2 = new_bool_vars (concat (map (\<lambda>i. map (A_O i) outputs) batches)) m1;
          m3 = new_int_vars t_min t_max (map S_INPUT batches) m2;
          m4 = new_int_vars t_min t_max (map S_BUFFER batches) m3;
          m5 = new_int_vars t_min t_max (map S_OUTPUT batches) m4;
          m6 = new_int_vars t_min t_max (map D_INPUT batches) m5;
          m7 = new_int_vars 1 t_max (map D_BUFFER batches) m6;
          m8 = new_int_vars t_min t_max (map D_OUTPUT batches) m7;
          m9 = new_int_vars t_min t_max (map E_INPUT batches) m8;
          m10 = new_int_vars t_min t_max (map E_BUFFER batches) m9;
          m11 = new_int_vars t_min t_max (map E_OUTPUT batches) m10;
          m12 = new_int_vars 0 V_max_buffer (map V_BUFFER_1 batches) m11;
          m13 = new_int_vars 0 V_max_buffer (map V_BUFFER_2 batches) m12;
          B_INPUT = (\<lambda>i. IntervalVar (S_INPUT i) (Var (D_INPUT i)) (E_INPUT i));
          B_BUFFER = (\<lambda>i. IntervalVar (S_BUFFER i) (Var (D_BUFFER i)) (E_BUFFER i));
          B_OUTPUT = (\<lambda>i. IntervalVar (S_OUTPUT i) (Var (D_OUTPUT i)) (E_OUTPUT i));
          V_BUFFER = (\<lambda>i. IntervalVar (V_BUFFER_1 i) (Const (V input_data_instance)) (V_BUFFER_2 i));
          m14 = new_interval_vars (map B_INPUT batches) m13;
          m15 = new_interval_vars (map B_BUFFER batches) m14;
          m16 = new_interval_vars (map B_OUTPUT batches) m15;
          m17 = new_interval_vars (map V_BUFFER batches) m16;
          m18 = fold (\<lambda>i. Add (SumEq (map (A_I i) inputs) 1)) batches m17;
          m19 = fold (\<lambda>i. Add (SumEq (map (A_O i) outputs) 1)) batches m18
      in case fold (\<lambda>i acc. fold (add_conditional T_out (A_O i) (D_INPUT i)) outputs
                              (fold (add_conditional T_in (A_I i) (D_INPUT i)) inputs acc))
                batches (Inr m19) of
           Inl e \<Rightarrow> Inl e
         | Inr m20 \<Rightarrow>
             (let m21 = fold (\<lambda>i m. Add (VarEqVar (S_OUTPUT i) (E_BUFFER i))
                                      (Add (VarEqVar (S_BUFFER i) (E_INPUT i)) m))
                          batches m20;
                  m22 = AddNoOverlap2D (map B_BUFFER batches) (map V_BUFFER batches) m21
              in if number_batches - 1 \<in> set (map int batches)
                 then Inr (Minimize (E_BUFFER (nat (number_batches - 1))) m22)
                 else Inl KeyError))"

text \<open>The conditional constraints of one batch, and the closed form of the built model.\<close>

definition conditionals :: "input_data \<Rightarrow> nat \<Rightarrow> sr_var constraint list" where
  "conditionals inp i =
     map (\<lambda>k. Constraint (VarEqConst (D_INPUT i) (the (Tin inp k))) [A_I i k]) (Inputs inp) @
     map (\<lambda>k. Constraint (VarEqConst (D_INPUT i) (the (Tout inp k))) [A_O i k]) (Outputs inp)"

definition batch_model :: "input_data \<Rightarrow> sr_var cp_model" where
  "batch_model inp =
     (let batches = [0..<nat (NoBatches inp)];
          bounded = (\<lambda>lb ub. map (\<lambda>v. (v, lb, ub)))
      in \<lparr>variables =
             bounded 0 1 (concat (map (\<lambda>i. map (A_I i) (Inputs inp)) batches)) @
             bounded 0 1 (concat (map (\<lambda>i. map (A_O i) (Outputs inp)) batches)) @
             bounded (Tmin inp) (Tmax inp) (map S_INPUT batches) @
             bounded (Tmin inp) (Tmax inp) (map S_BUFFER batches) @
             bounded (Tmin inp) (Tmax inp) (map S_OUTPUT batches) @
             bounded (Tmin inp) (Tmax inp) (map D_INPUT batches) @
             bounded 1 (Tmax inp) (map D_BUFFER batches) @
             bounded (Tmin inp) (Tmax inp) (map D_OUTPUT batches) @
             bounded (Tmin inp) (Tmax inp) (map E_INPUT batches) @
             bounded (Tmin inp) (Tmax inp) (map E_BUFFER batches) @
             bounded (Tmin inp) (Tmax inp) (map E_OUTPUT batches) @
             bounded 0 (VMaxBuffer inp) (map V_BUFFER_1 batches) @
             bounded 0 (VMaxBuffer inp) (map V_BUFFER_2 batches),
           intervals =
             map (\<lambda>i. IntervalVar (S_INPUT i) (Var (D_INPUT i)) (E_INPUT i)) batches @
             map (\<lambda>i. IntervalVar (S_BUFFER i) (Var (D_BUFFER i)) (E_BUFFER i)) batches @
             map (\<lambda>i. IntervalVar (S_OUTPUT i) (Var (D_OUTPUT i)) (E_OUTPUT i)) batches @
             map (\<lambda>i. IntervalVar (V_BUFFER_1 i) (Const (V inp)) (V_BUFFER_2 i)) batches,
           constraints =
             map (\<lambda>i. Constraint (SumEq (map (A_I i) (Inputs inp)) 1) []) batches @
             map (\<lambda>i. Constraint (SumEq (map (A_O i) (Outputs inp)) 1) []) batches @
             concat (map (conditionals inp) batches) @
             concat (map (\<lambda>i. [Constraint (VarEqVar (S_BUFFER i) (E_INPUT i)) [],
                                Constraint (VarEqVar (S_OUTPUT i) (E_BUFFER i)) []]) batches) @
             [Constraint (NoOverlap2D
                (map (\<lambda>i. IntervalVar (S_BUFFER i) (Var (D_BUFFER i)) (E_BUFFER i)) batches)
                (map (\<lambda>i. IntervalVar (V_BUFFER_1 i) (Const (V inp)) (V_BUFFER_2 i)) batches)) []],
           objective = Some (E_BUFFER (nat (NoBatches inp - 1)))\<rparr>)"

text \<open>The input of the script's \<open>__main__\<close> block; \<open>int(10 / 10)\<close>, \<open>int(10 / 5)\<close> and
  \<open>int(10 / 2)\<close> are 1, 2 and 5.\<close>

definition input_data_main :: input_data where
  "input_data_main =
     \<lparr>NoBatches = 10,
      Inputs = [''IN1'', ''IN2'', ''IN3''],
      Outputs = [''ROP1'', ''ROP2'', ''PAST1'', ''PAST2''],
      V = 10,
      VMaxBuffer = 30,
      Tin = map_of [(''IN1'', 1), (''IN2'', 2), (''IN3'', 5)],
      Tout = map_of [(''ROP1'', 1), (''ROP2'', 2), (''PAST1'', 1), (''PAST2'', 2)],
      Tmin = 0,
      Tmax = 100000\<rparr>"

text \<open>
  An assignment for that input in which the batches pass through the buffer one after
  the other, the last batch first: batch \<open>i\<close> is in the buffer during \<open>[19 - 2i, 20 - 2i)\<close>.
\<close>

fun staggered :: "sr_var \<Rightarrow> int" where
  "staggered (A_I i k) = (if k = ''IN1'' then 1 else 0)"
| "staggered (A_O i k) = (if k = ''ROP1'' then 1 else 0)"
| "staggered (S_INPUT i) = 18 - 2 * int i"
| "staggered (D_INPUT i) = 1"
| "staggered (E_INPUT i) = 19 - 2 * int i"
| "staggered (S_BUFFER i) = 19 - 2 * int i"
| "staggered (D_BUFFER i) = 1"
| "staggered (E_BUFFER i) = 20 - 2 * int i"
| "staggered (S_OUTPUT i) = 20 - 2 * int i"
| "staggered (D_OUTPUT i) = 0"
| "staggered (E_OUTPUT i) = 20 - 2 * int i"
| "staggered (V_BUFFER_1 i) = 0"
| "staggered (V_BUFFER_2 i) = 10"

section \<open>EmployeeScheduling.py: the solution callback\<close>

text \<open>
  The lines the callback prints: \<open>'Solution %i'\<close>, \<open>'Day %i'\<close>,
  \<open>'  Nurse %i works shift %i'\<close>, \<open>'  Nurse {} does not work'\<close> and
  \<open>'Stop search after %i solutions'\<close>, each with its arguments.
\<close>

datatype line =
    Solution_line int
  | Day_line nat
  | Works_line nat nat
  | Does_not_work_line nat
  | Stop_line int

text \<open>
  The state of a \<open>NursesPartialSolutionPrinter\<close>: its fields, the lines printed so far,
  and whether \<open>StopSearch\<close> has been called. \<open>shifts\<close> is the dictionary from
  \<open>(nurse, day, shift)\<close> to the Boolean variable.
\<close>

record 'v printer =
  shifts :: "nat \<times> nat \<times> nat \<rightharpoonup> 'v"
  num_nurses :: int
  num_days :: int
  num_shifts :: int
  solution_count :: int
  solution_limit :: int
  printed :: "line list"
  stop_requested :: bool

definition NursesPartialSolutionPrinter ::
  "(nat \<times> nat \<times> nat \<rightharpoonup> 'v) \<Rightarrow> int \<Rightarrow> int \<Rightarrow> int \<Rightarrow> int \<Rightarrow> 'v printer" where
  "NursesPartialSolutionPrinter shifts_dict nurses days shifts_per_day limit =
     \<lparr>shifts = shifts_dict, num_nurses = nurses, num_days = days, num_shifts = shifts_per_day,
      solution_count = 0, solution_limit = limit, printed = [], stop_requested = False\<rparr>"

text \<open>
  The innermost loop body: one shift of one nurse on one day. The state is the flag
  \<open>is_working\<close> and the printed lines; reading \<open>shifts\<close> at a missing key raises.
\<close>

definition shift_step ::
  "'v printer \<Rightarrow> ('v \<Rightarrow> int) \<Rightarrow> nat \<Rightarrow> nat \<Rightarrow> nat \<Rightarrow> error + bool \<times> line list \<Rightarrow> error + bool \<times> line list" where
  "shift_step p val d n s acc =
     (case acc of
        Inl e \<Rightarrow> Inl e
      | Inr (is_working, out) \<Rightarrow>
          (case shifts p (n, d, s) of
             None \<Rightarrow> Inl KeyError
           | Some v \<Rightarrow>
               if val v \<noteq> 0 then Inr (True, out @ [Works_line n s]) else Inr (is_working, out)))"

definition nurse_step ::
  "'v printer \<Rightarrow> ('v \<Rightarrow> int) \<Rightarrow> nat \<Rightarrow> nat \<Rightarrow> error + line list \<Rightarrow> error + line list" where
  "nurse_step p val d n acc =
     (case acc of
        Inl e \<Rightarrow> Inl e
      | Inr out \<Rightarrow>
          (case fold (shift_step p val d n) [0..<nat (num_shifts p)] (Inr (False, out)) of
             Inl e \<Rightarrow> Inl e
           | Inr (is_working, out') \<Rightarrow>
               if \<not> is_working then Inr (out' @ [Does_not_work_line n]) else Inr out'))"

definition day_step ::
  "'v printer \<Rightarrow> ('v \<Rightarrow> int) \<Rightarrow> nat \<Rightarrow> error + line list \<Rightarrow> error + line list" where
  "day_step p val d acc =
     (case acc of
        Inl e \<Rightarrow> Inl e
      | Inr out \<Rightarrow> fold (nurse_step p val d) [0..<nat (num_nurses p)] (Inr (out @ [Day_line d])))"

text \<open>\<open>on_solution_callback\<close>, called with the values of the solution just found.\<close>

definition on_solution_callback :: "'v printer \<Rightarrow> ('v \<Rightarrow> int) \<Rightarrow> error + 'v printer" where
  "on_solution_callback p val =
     (let p1 = p\<lparr>solution_count := solution_count p + 1\<rparr>;
          out1 = printed p1 @ [Solution_line (solution_count p1)]
      in case fold (day_step p1 val) [0..<nat (num_days p1)] (Inr out1) of
           Inl e \<Rightarrow> Inl e
         | Inr out2 \<Rightarrow>
             if solution_count p1 \<ge> solution_limit p1
             then Inr (p1\<lparr>printed := out2 @ [Stop_line (solution_limit p1)], stop_requested := True\<rparr>)
             else Inr (p1\<lparr>printed := out2\<rparr>))"

text \<open>
  Modelled from the spec: the producer side of the enumeration, which is the external
  solver's search and not part of the repository. It finds a finite sequence of
  solutions, hands each to the callback, honours a stop request at once and then emits
  no further solution; an exception of the callback ends the run.
\<close>

fun Solve :: "('v \<Rightarrow> int) list \<Rightarrow> 'v printer \<Rightarrow> error + 'v printer" where
  "Solve [] p = Inr p"
| "Solve (val # vals) p =
     (case on_solution_callback p val of
        Inl e \<Rightarrow> Inl e
      | Inr p' \<Rightarrow> if stop_requested p' then Inr p' else Solve vals p')"

text \<open>The dictionary holds a variable for every key the callback reads.\<close>

definition shifts_cover :: "'v printer \<Rightarrow> bool" where
  "shifts_cover p \<longleftrightarrow>
     (\<forall>n<nat (num_nurses p). \<forall>d<nat (num_days p). \<forall>s<nat (num_shifts p). shifts p (n, d, s) \<noteq> None)"

text \<open>A one-nurse, one-day, one-shift instance for concrete runs: the variable is its own
  key, and in the solution the nurse works.\<close>

definition unit_shifts :: "nat \<times> nat \<times> nat \<rightharpoonup> nat \<times> nat \<times> nat" where
  "unit_shifts = Some"

definition nurse_works :: "nat \<times> nat \<times> nat \<Rightarrow> int" where
  "nurse_works v = 1"

section \<open>JobShop.py: what the builder returns\<close>

lemma fold_nested_enumerate:
  "fold (\<lambda>(job_id, job). fold (f job_id) (enumerate 0 job)) (enumerate n jobs) s =
   fold (\<lambda>(j, t, task). f j (t, task)) (tasks_from n jobs) s"
proof (induction jobs arbitrary: n s)
  case Nil
  then show ?case by simp
next
  case (Cons job jobs)
  have "fold (\<lambda>(j, t, task). f j (t, task)) (map (Pair n) (enumerate 0 job)) s
        = fold (f n) (enumerate 0 job) s"
    by (simp add: fold_map comp_def)
  with Cons show ?case by simp
qed

lemma in_tasks_from:
  "(j, t, task) \<in> set (tasks_from n jobs) \<longleftrightarrow>
     n \<le> j \<and> j - n < length jobs \<and> t < length (jobs ! (j - n)) \<and> task = jobs ! (j - n) ! t"
proof (induction jobs arbitrary: n)
  case Nil
  then show ?case by simp
next
  case (Cons job jobs)
  have head: "(j, t, task) \<in> set (map (Pair n) (enumerate 0 job))
      \<longleftrightarrow> j = n \<and> t < length job \<and> task = job ! t"
    by (auto simp: in_set_enumerate_eq image_iff)
  show ?case
  proof (cases "j = n")
    case True
    then show ?thesis using head Cons.IH [of "Suc n"] by auto
  next
    case False
    then have "j - n = Suc (j - Suc n) \<or> j < n" by arith
    then show ?thesis using head Cons.IH [of "Suc n"] False by auto
  qed
qed

lemma tasks_from_job_ge: "x \<in> set (tasks_from n jobs) \<Longrightarrow> n \<le> fst x"
  by (cases x) (simp add: in_tasks_from)

lemma distinct_task_keys: "distinct (map task_key (tasks_from n jobs))"
proof (induction jobs arbitrary: n)
  case Nil
  then show ?case by simp
next
  case (Cons job jobs)
  have "map task_key (map (Pair n) (enumerate 0 job))
        = map (\<lambda>x. (n, fst x)) (enumerate 0 job)"
    by (simp add: task_key_def comp_def)
  then have d1: "distinct (map task_key (map (Pair n) (enumerate 0 job)))"
    by (auto simp: distinct_map inj_on_def in_set_enumerate_eq prod_eq_iff simp del: map_map)
  have d2: "task_key x \<noteq> task_key y"
    if "x \<in> set (map (Pair n) (enumerate 0 job))"
      and "y \<in> set (tasks_from (Suc n) jobs)" for x y
    using that tasks_from_job_ge [of y "Suc n" jobs] by (auto simp: task_key_def)
  have "set (map task_key (map (Pair n) (enumerate 0 job))) \<inter> set (map task_key (tasks_from (Suc n) jobs)) = {}"
    using d2 by (auto simp del: map_map) (metis imageI)
  then show ?case using d1 Cons.IH [of "Suc n"] by (simp del: map_map)
qed

lemma map_task_of_tasks_from: "map (\<lambda>x. snd (snd x)) (tasks_from n jobs) = concat jobs"
proof (induction jobs arbitrary: n)
  case Nil
  then show ?case by simp
next
  case (Cons job jobs)
  have "map (\<lambda>x. snd (snd x)) (map (Pair n) (enumerate 0 job)) = map snd (enumerate 0 job)"
    by (simp add: comp_def)
  with Cons show ?case by simp
qed

lemma create_all_Nil: "create_all h [] s = s"
  by (simp add: create_all_def)

lemma create_all_Cons:
  "create_all h (x # xs) s = create_all h xs (create_task h (fst x) (snd x) s)"
  by (simp add: create_all_def case_prod_unfold)

lemma create_task_model:
  "variables (model (create_task h (fst x) (snd x) s)) = variables (model s) @ task_bounds h x"
  "intervals (model (create_task h (fst x) (snd x) s)) = intervals (model s) @ [task_interval x]"
  "constraints (model (create_task h (fst x) (snd x) s)) = constraints (model s)"
  "objective (model (create_task h (fst x) (snd x) s)) = objective (model s)"
  by (simp_all add: create_task_def case_prod_unfold Let_def NewIntVar_def NewIntervalVar_def
      task_bounds_def task_interval_def)

lemma create_task_dicts:
  "machine_to_intervals (create_task h (fst x) (snd x) s) machine =
     machine_to_intervals s machine @ (if on_machine machine x then [task_interval x] else [])"
  "all_tasks (create_task h (fst x) (snd x) s) k =
     (if k = task_key x then Some (task_entry x) else all_tasks s k)"
  by (auto simp: create_task_def case_prod_unfold Let_def on_machine_def task_interval_def
      task_key_def task_entry_def)

lemma create_all_model:
  "variables (model (create_all h xs s)) = variables (model s) @ concat (map (task_bounds h) xs)"
  "intervals (model (create_all h xs s)) = intervals (model s) @ map task_interval xs"
  "constraints (model (create_all h xs s)) = constraints (model s)"
  "objective (model (create_all h xs s)) = objective (model s)"
  by (induction xs arbitrary: s) (simp_all add: create_all_Nil create_all_Cons create_task_model)

lemma create_all_machine_to_intervals:
  "machine_to_intervals (create_all h xs s) machine =
     machine_to_intervals s machine @ map task_interval (filter (on_machine machine) xs)"
  by (induction xs arbitrary: s) (simp_all add: create_all_Nil create_all_Cons create_task_dicts)

lemma create_all_tasks_other:
  "k \<notin> set (map task_key xs) \<Longrightarrow> all_tasks (create_all h xs s) k = all_tasks s k"
  by (induction xs arbitrary: s) (simp_all add: create_all_Nil create_all_Cons create_task_dicts)

lemma create_all_tasks_member:
  "distinct (map task_key xs) \<Longrightarrow> x \<in> set xs \<Longrightarrow>
   all_tasks (create_all h xs s) (task_key x) = Some (task_entry x)"
proof (induction xs arbitrary: s)
  case Nil
  then show ?case by simp
next
  case (Cons y ys)
  show ?case
  proof (cases "x = y")
    case True
    with Cons.prems have "task_key x \<notin> set (map task_key ys)" by simp
    then show ?thesis using True
      by (simp add: create_all_Cons create_all_tasks_other create_task_dicts)
  next
    case False
    with Cons show ?thesis by (simp add: create_all_Cons)
  qed
qed

lemma create_all_tasks_eq:
  "all_tasks (create_all h (tasks_from 0 jobs) \<lparr>model = m0, all_tasks = Map.empty, machine_to_intervals = f0\<rparr>)
     = task_table jobs"
proof (rule ext)
  fix k :: "nat \<times> nat"
  obtain j t where k: "k = (j, t)" by (cases k)
  let ?s = "\<lparr>model = m0, all_tasks = Map.empty, machine_to_intervals = f0\<rparr>"
  show "all_tasks (create_all h (tasks_from 0 jobs) ?s) k = task_table jobs k"
  proof (cases "j < length jobs \<and> t < length (jobs ! j)")
    case True
    then have "(j, t, jobs ! j ! t) \<in> set (tasks_from 0 jobs)" by (simp add: in_tasks_from)
    from create_all_tasks_member [OF distinct_task_keys this, of h ?s] True k
    show ?thesis by (simp add: task_table_def task_key_def)
  next
    case False
    then have "k \<notin> set (map task_key (tasks_from 0 jobs))"
      using k by (auto simp: task_key_def in_tasks_from)
    from create_all_tasks_other [OF this, of h ?s] False k
    show ?thesis by (simp add: task_table_def)
  qed
qed

lemma add_precedence_Inl: "fold (add_precedence tasks j) ts (Inl e) = Inl e"
  by (induction ts) (simp_all add: add_precedence_def)

lemma precedence_loop_Inl:
  "fold (\<lambda>(job_id, job). fold (add_precedence tasks job_id) [0..<length job - 1]) js (Inl e) = Inl e"
  by (induction js) (simp_all add: add_precedence_Inl case_prod_unfold)

lemma add_precedence_step:
  assumes "j < length jobs" and "Suc t < length (jobs ! j)"
  shows "add_precedence (task_table jobs) j t (Inr m) =
         Inr (m\<lparr>constraints := constraints m @
                  [Constraint (GreaterEq (StartVar j (t + 1)) (EndVar j t)) []]\<rparr>)"
  using assms by (simp add: add_precedence_def Add_def task_entry_def task_table_def)

lemma add_precedence_job:
  assumes "j < length jobs" and "\<forall>t\<in>set ts. Suc t < length (jobs ! j)"
  shows "fold (add_precedence (task_table jobs) j) ts (Inr m) =
         Inr (m\<lparr>constraints := constraints m @
                  map (\<lambda>t. Constraint (GreaterEq (StartVar j (t + 1)) (EndVar j t)) []) ts\<rparr>)"
  using assms
proof (induction ts arbitrary: m)
  case Nil
  then show ?case by simp
next
  case (Cons t ts)
  then show ?case by (simp add: add_precedence_step)
qed

lemma precedence_loop:
  assumes "\<forall>p\<in>set ps. fst p < length jobs \<and> jobs ! fst p = snd p"
  shows "fold (\<lambda>(job_id, job). fold (add_precedence (task_table jobs) job_id) [0..<length job - 1])
           ps (Inr m) =
         Inr (m\<lparr>constraints := constraints m @
                concat (map (\<lambda>(job_id, job).
                    map (\<lambda>task_id. Constraint (GreaterEq (StartVar job_id (task_id + 1)) (EndVar job_id task_id)) [])
                        [0..<length job - 1]) ps)\<rparr>)"
  using assms
proof (induction ps arbitrary: m)
  case Nil
  then show ?case by simp
next
  case (Cons p ps)
  obtain j job where p: "p = (j, job)" by (cases p)
  with Cons.prems have j: "j < length jobs" and job: "jobs ! j = job" by auto
  have "\<forall>t\<in>set [0..<length job - 1]. Suc t < length (jobs ! j)"
    using job by auto
  from add_precedence_job [OF j this]
  show ?case using Cons p by simp
qed

lemma precedence_loop_enumerate:
  "fold (\<lambda>(job_id, job). fold (add_precedence (task_table jobs) job_id) [0..<length job - 1])
     (enumerate 0 jobs) (Inr m) =
   Inr (m\<lparr>constraints := constraints m @ precedences 0 jobs\<rparr>)"
  unfolding precedences_def
  by (rule precedence_loop) (simp add: in_set_enumerate_eq)

lemma collect_last_task_end:
  assumes "\<forall>p\<in>set ps. fst p < length jobs \<and> jobs ! fst p = snd p"
  shows "collect (last_task_end (task_table jobs)) ps =
         (if \<exists>p\<in>set ps. snd p = [] then Inl KeyError
          else Inr (map (\<lambda>(job_id, job). EndVar job_id (length job - 1)) ps))"
  using assms
proof (induction ps)
  case Nil
  then show ?case by simp
next
  case (Cons p ps)
  obtain j job where p: "p = (j, job)" by (cases p)
  with Cons.prems have j: "j < length jobs" and job: "jobs ! j = job" by auto
  have "last_task_end (task_table jobs) (j, job) =
          (if job = [] then Inl KeyError else Inr (EndVar j (length job - 1)))"
    using j job by (auto simp: last_task_end_def task_table_def task_entry_def)
  then show ?case using Cons p by auto
qed

lemma no_overlap_loop:
  "fold (\<lambda>machine. AddNoOverlap (f machine)) ms m =
   m\<lparr>constraints := constraints m @ map (\<lambda>machine. Constraint (NoOverlap (f machine)) []) ms\<rparr>"
  by (induction ms arbitrary: m) (simp_all add: AddNoOverlap_def Add_def)

lemma JobShop_build_model_eq:
  "JobShop_build_model jobs =
     (if concat jobs = [] then Inl ValueError
      else if [] \<in> set jobs then Inl KeyError
      else Inr (built_model jobs, task_table jobs, range_py (machines_count jobs)))"
proof -
  let ?init = "\<lparr>model = CpModel, all_tasks = Map.empty, machine_to_intervals = (\<lambda>_. [])\<rparr>"
  let ?s = "create_all (horizon jobs) (tasks_from 0 jobs) ?init"
  have loop: "fold (\<lambda>(job_id, job). fold (create_task (horizon jobs) job_id) (enumerate 0 job))
                (enumerate 0 jobs) ?init = ?s"
    unfolding create_all_def by (rule fold_nested_enumerate)
  have tasks: "all_tasks ?s = task_table jobs"
    by (rule create_all_tasks_eq)
  have ends: "collect (last_task_end (task_table jobs)) (enumerate 0 jobs) =
         (if [] \<in> set jobs then Inl KeyError
          else Inr (map (\<lambda>(job_id, job). EndVar job_id (length job - 1)) (enumerate 0 jobs)))"
  proof -
    have "(\<exists>p\<in>set (enumerate 0 jobs). snd p = []) \<longleftrightarrow> [] \<in> set jobs"
      by (metis (no_types, lifting) image_iff list.set_map map_snd_enumerate)
    then show ?thesis
      using collect_last_task_end [of "enumerate 0 jobs" jobs]
      by (simp add: in_set_enumerate_eq)
  qed
  show ?thesis
    unfolding JobShop_build_model_def Let_def loop tasks precedence_loop_enumerate no_overlap_loop
      horizon_def [symmetric] machines_count_def [symmetric]
    by (simp add: ends built_model_def create_all_model create_all_machine_to_intervals
        CpModel_def NewIntVar_def AddMaxEquality_def Add_def Minimize_def)
qed

lemma count_list_distinct:
  "distinct xs \<Longrightarrow> count_list xs x = (if x \<in> set xs then 1 else 0)"
  by (induction xs) auto

lemma precedences_Cons:
  "precedences n (job # jobs) = map (precedence n) [0..<length job - 1] @ precedences (Suc n) jobs"
  by (simp add: precedences_def precedence_def)

lemma precedences_Nil: "precedences n [] = []"
  by (simp add: precedences_def)

lemma in_precedences:
  "c \<in> set (precedences n jobs) \<longleftrightarrow>
     (\<exists>j i. n \<le> j \<and> j - n < length jobs \<and> i + 1 < length (jobs ! (j - n)) \<and> c = precedence j i)"
proof (induction jobs arbitrary: n)
  case Nil
  then show ?case by (simp add: precedences_Nil)
next
  case (Cons job jobs)
  have head: "c \<in> set (map (precedence n) [0..<length job - 1]) \<longleftrightarrow>
                (\<exists>i. i + 1 < length job \<and> c = precedence n i)"
    by (auto simp: less_diff_conv)
  have tail: "(\<exists>j i. Suc n \<le> j \<and> j - Suc n < length jobs \<and> i + 1 < length (jobs ! (j - Suc n)) \<and> c = precedence j i)
      \<longleftrightarrow> (\<exists>j i. n < j \<and> j - n < length (job # jobs) \<and> i + 1 < length ((job # jobs) ! (j - n)) \<and> c = precedence j i)"
    (is "?L \<longleftrightarrow> ?R")
  proof
    assume ?L
    then obtain j i where a: "Suc n \<le> j" "j - Suc n < length jobs"
      "i + 1 < length (jobs ! (j - Suc n))" "c = precedence j i" by blast
    then have "j - n = Suc (j - Suc n)" by arith
    with a show ?R by (intro exI [of _ j] exI [of _ i]) auto
  next
    assume ?R
    then obtain j i where a: "n < j" "j - n < length (job # jobs)"
      "i + 1 < length ((job # jobs) ! (j - n))" "c = precedence j i" by blast
    then have "j - n = Suc (j - Suc n)" by arith
    with a show ?L by (intro exI [of _ j] exI [of _ i]) auto
  qed
  have split: "(\<exists>j i. n \<le> j \<and> j - n < length (job # jobs) \<and> i + 1 < length ((job # jobs) ! (j - n)) \<and> c = precedence j i)
     \<longleftrightarrow> (\<exists>i. i + 1 < length job \<and> c = precedence n i) \<or>
         (\<exists>j i. n < j \<and> j - n < length (job # jobs) \<and> i + 1 < length ((job # jobs) ! (j - n)) \<and> c = precedence j i)"
    (is "?A \<longleftrightarrow> ?B \<or> ?C")
  proof
    assume ?A
    then obtain j i where a: "n \<le> j" "j - n < length (job # jobs)"
      "i + 1 < length ((job # jobs) ! (j - n))" "c = precedence j i" by blast
    show "?B \<or> ?C"
    proof (cases "j = n")
      case True
      with a show ?thesis by auto
    next
      case False
      with a have "n < j" by simp
      with a show ?thesis by blast
    qed
  next
    assume "?B \<or> ?C"
    then show ?A
    proof
      assume ?B
      then obtain i where "i + 1 < length job" "c = precedence n i" by blast
      then show ?A by (intro exI [of _ n] exI [of _ i]) simp
    next
      assume ?C
      then obtain j i where a: "n < j" "j - n < length (job # jobs)"
        "i + 1 < length ((job # jobs) ! (j - n))" "c = precedence j i" by blast
      then show ?A by (intro exI [of _ j] exI [of _ i]) simp
    qed
  qed
  show ?case
    unfolding precedences_Cons set_append Un_iff head Cons.IH [of "Suc n"] tail split ..
qed

lemma precedence_job_ge: "c \<in> set (precedences n jobs) \<Longrightarrow> \<exists>j i. n \<le> j \<and> c = precedence j i"
  by (auto simp: in_precedences)

lemma distinct_precedences: "distinct (precedences n jobs)"
proof (induction jobs arbitrary: n)
  case Nil
  then show ?case by (simp add: precedences_Nil)
next
  case (Cons job jobs)
  have d1: "distinct (map (precedence n) [0..<length job - 1])"
    by (simp add: distinct_map inj_on_def precedence_def)
  have "set (map (precedence n) [0..<length job - 1]) \<inter> set (precedences (Suc n) jobs) = {}"
    using precedence_job_ge [of _ "Suc n" jobs] by (fastforce simp: precedence_def)
  with d1 Cons.IH [of "Suc n"] show ?case by (simp add: precedences_Cons)
qed

lemma length_precedences:
  "length (precedences n jobs) = sum_list (map (\<lambda>job. length job - 1) jobs)"
  by (induction jobs arbitrary: n) (simp_all add: precedences_Nil precedences_Cons)

lemma filter_GreaterEq_built_model:
  "filter (\<lambda>c. is_GreaterEq (ct_of c)) (constraints (built_model jobs)) = precedences 0 jobs"
proof -
  have "filter (\<lambda>c. is_GreaterEq (ct_of c)) (precedences 0 jobs) = precedences 0 jobs"
    by (rule filter_True) (auto simp: in_precedences precedence_def)
  then show ?thesis by (simp add: built_model_def filter_map comp_def)
qed

lemma JobShop_build_model_Inr:
  assumes "JobShop_build_model jobs = Inr (m, tasks, machines)"
  shows "concat jobs \<noteq> []" "[] \<notin> set jobs" "m = built_model jobs" "tasks = task_table jobs"
    "machines = range_py (machines_count jobs)"
  using assms by (auto simp: JobShop_build_model_eq split: if_splits)

lemma JobShop_build_model_total:
  assumes "jobs \<noteq> []" and "[] \<notin> set jobs"
  shows "JobShop_build_model jobs =
           Inr (built_model jobs, task_table jobs, range_py (machines_count jobs))"
proof -
  from assms have "concat jobs \<noteq> []" by (cases jobs) auto
  with assms(2) show ?thesis by (simp add: JobShop_build_model_eq)
qed

lemma built_exE:
  assumes "\<exists>m tasks machines. r = Inr (m, tasks, machines) \<and> P m tasks machines"
    and "r = Inr (m0, tasks0, machines0)"
  shows "P m0 tasks0 machines0"
  using assms by auto

section \<open>JobShop.py: precedence and no-overlap constraints\<close>

lemma precedence_constraint_per_consecutive_pair_built:
  assumes "JobShop_build_model jobs_data = Inr (m, tasks, machines)"
  shows "(\<forall>j i. j < length jobs_data \<and> i + 1 < length (jobs_data ! j) \<longrightarrow>
            (\<exists>cur nxt. tasks (j, i) = Some cur \<and> tasks (j, i + 1) = Some nxt \<and>
               count_list (constraints m) (Constraint (GreaterEq (tt_start nxt) (tt_end cur)) []) = 1)) \<and>
         length (filter (\<lambda>c. is_GreaterEq (ct_of c)) (constraints m)) =
           sum_list (map (\<lambda>job. length job - 1) jobs_data) \<and>
         (\<forall>c\<in>set (constraints m). is_GreaterEq (ct_of c) \<longrightarrow>
            (\<exists>j i. j < length jobs_data \<and> i + 1 < length (jobs_data ! j) \<and>
                   c = Constraint (GreaterEq (StartVar j (i + 1)) (EndVar j i)) []))"
proof (intro conjI allI impI ballI)
  note b = JobShop_build_model_Inr [OF assms]
  fix j i
  assume v: "j < length jobs_data \<and> i + 1 < length (jobs_data ! j)"
  then have t1: "tasks (j, i) = Some (task_entry (j, i, jobs_data ! j ! i))"
    and t2: "tasks (j, i + 1) = Some (task_entry (j, i + 1, jobs_data ! j ! (i + 1)))"
    by (simp_all add: b task_table_def)
  have mem: "precedence j i \<in> set (precedences 0 jobs_data)"
    using v by (auto simp: in_precedences)
  have "count_list (constraints m) (precedence j i) = count_list (precedences 0 jobs_data) (precedence j i)"
    by (simp add: b built_model_def precedence_def count_list_0_iff image_iff)
  also have "\<dots> = 1"
    using mem by (simp add: count_list_distinct distinct_precedences)
  finally have "count_list (constraints m)
      (Constraint (GreaterEq (tt_start (task_entry (j, i + 1, jobs_data ! j ! (i + 1))))
                             (tt_end (task_entry (j, i, jobs_data ! j ! i)))) []) = 1"
    by (simp add: precedence_def task_entry_def)
  with t1 t2 show "\<exists>cur nxt. tasks (j, i) = Some cur \<and> tasks (j, i + 1) = Some nxt \<and>
               count_list (constraints m) (Constraint (GreaterEq (tt_start nxt) (tt_end cur)) []) = 1"
    by blast
next
  note b = JobShop_build_model_Inr [OF assms]
  show "length (filter (\<lambda>c. is_GreaterEq (ct_of c)) (constraints m)) =
           sum_list (map (\<lambda>job. length job - 1) jobs_data)"
    by (simp add: b filter_GreaterEq_built_model length_precedences)
next
  note b = JobShop_build_model_Inr [OF assms]
  fix c
  assume "c \<in> set (constraints m)" and "is_GreaterEq (ct_of c)"
  then have "c \<in> set (filter (\<lambda>c. is_GreaterEq (ct_of c)) (constraints m))" by simp
  then have "c \<in> set (precedences 0 jobs_data)"
    by (simp only: b filter_GreaterEq_built_model)
  then show "\<exists>j i. j < length jobs_data \<and> i + 1 < length (jobs_data ! j) \<and>
                   c = Constraint (GreaterEq (StartVar j (i + 1)) (EndVar j i)) []"
    by (auto simp: in_precedences precedence_def)
qed

text \<open>
  Claim C1. For a non-empty job list without an empty job the builder returns a model,
  and in it: for every job and every pair of consecutive tasks \<open>(i, i + 1)\<close> of it, the
  model holds exactly one unconditional constraint \<open>start(i + 1) \<ge> end(i)\<close> over the
  variables stored in \<open>all_tasks\<close>; the model holds \<open>len(job) - 1\<close> precedence
  constraints per job in all, so a job of a single task contributes none; and every
  precedence constraint of the model is one of these.
\<close>

theorem precedence_constraint_per_consecutive_pair:
  assumes "jobs_data \<noteq> []"
    and "[] \<notin> set jobs_data"
  shows "\<exists>m tasks machines. JobShop_build_model jobs_data = Inr (m, tasks, machines) \<and>
  ((\<forall>j i. j < length jobs_data \<and> i + 1 < length (jobs_data ! j) \<longrightarrow>
               (\<exists>cur nxt. tasks (j, i) = Some cur \<and> tasks (j, i + 1) = Some nxt \<and>
                  count_list (constraints m) (Constraint (GreaterEq (tt_start nxt) (tt_end cur)) []) = 1)) \<and>
            length (filter (\<lambda>c. is_GreaterEq (ct_of c)) (constraints m)) =
              sum_list (map (\<lambda>job. length job - 1) jobs_data) \<and>
            (\<forall>c\<in>set (constraints m). is_GreaterEq (ct_of c) \<longrightarrow>
               (\<exists>j i. j < length jobs_data \<and> i + 1 < length (jobs_data ! j) \<and>
                      c = Constraint (GreaterEq (StartVar j (i + 1)) (EndVar j i)) [])))"
proof -
  have built: "JobShop_build_model jobs_data =
      Inr (built_model jobs_data, task_table jobs_data, range_py (machines_count jobs_data))"
    using assms by (rule JobShop_build_model_total)
  show ?thesis
    by (rule exI [of _ "built_model jobs_data"], rule exI [of _ "task_table jobs_data"],
        rule exI [of _ "range_py (machines_count jobs_data)"],
        rule conjI [OF built precedence_constraint_per_consecutive_pair_built [OF built]])
qed

theorem precedence_constraint_per_consecutive_pair_witness:
  "JobShop_build_model [[(0, 3), (1, 2)], [(1, 4)]] =
     Inr (built_model [[(0, 3), (1, 2)], [(1, 4)]], task_table [[(0, 3), (1, 2)], [(1, 4)]],
          range_py (machines_count [[(0, 3), (1, 2)], [(1, 4)]])) \<and>
   length (filter (\<lambda>c. is_GreaterEq (ct_of c)) (constraints (built_model [[(0, 3), (1, 2)], [(1, 4)]]))) = 1 \<and>
   count_list (constraints (built_model [[(0, 3), (1, 2)], [(1, 4)]]))
     (Constraint (GreaterEq (StartVar 0 1) (EndVar 0 0)) []) = 1"
proof -
  have b: "JobShop_build_model [[(0, 3), (1, 2)], [(1, 4)]] =
     Inr (built_model [[(0, 3), (1, 2)], [(1, 4)]], task_table [[(0, 3), (1, 2)], [(1, 4)]],
          range_py (machines_count [[(0, 3), (1, 2)], [(1, 4)]]))"
    by (simp add: JobShop_build_model_eq)
  have h: "[[(0, 3), (1, 2)], [(1, 4)]] \<noteq> ([] :: (int \<times> int) list list)"
    "[] \<notin> set [[(0, 3), (1, 2)], [(1, 4 :: int)] :: (int \<times> int) list]"
    by simp_all
  note t = built_exE [OF precedence_constraint_per_consecutive_pair [OF h] b]
  from t have len: "length (filter (\<lambda>c. is_GreaterEq (ct_of c))
      (constraints (built_model [[(0, 3), (1, 2)], [(1, 4)]]))) = 1"
    by simp
  from t have "\<exists>cur nxt. task_table [[(0, 3), (1, 2)], [(1, 4)]] (0, 0) = Some cur \<and>
      task_table [[(0, 3), (1, 2)], [(1, 4)]] (0, 0 + 1) = Some nxt \<and>
      count_list (constraints (built_model [[(0, 3), (1, 2)], [(1, 4)]]))
        (Constraint (GreaterEq (tt_start nxt) (tt_end cur)) []) = 1"
    by (elim conjE allE [of _ 0] impE) simp_all
  then have "count_list (constraints (built_model [[(0, 3), (1, 2)], [(1, 4)]]))
     (Constraint (GreaterEq (StartVar 0 1) (EndVar 0 0)) []) = 1"
    by (auto simp: task_table_def task_entry_def)
  with b len show ?thesis by blast
qed

lemma filter_NoOverlap_built_model:
  "filter (\<lambda>c. is_NoOverlap (ct_of c)) (constraints (built_model jobs)) =
     map (\<lambda>machine. Constraint
            (NoOverlap (map task_interval (filter (on_machine machine) (tasks_from 0 jobs)))) [])
         (range_py (machines_count jobs))"
proof -
  have "filter (\<lambda>c. is_NoOverlap (ct_of c)) (precedences 0 jobs) = []"
    by (auto simp: filter_empty_conv in_precedences precedence_def)
  then show ?thesis by (simp add: built_model_def filter_map comp_def)
qed

lemma no_overlap_constraint_per_machine_built:
  assumes "JobShop_build_model jobs_data = Inr (m, tasks, machines)"
  shows "machines = range_py (1 + Max (set (map fst (concat jobs_data)))) \<and>
         filter (\<lambda>c. is_NoOverlap (ct_of c)) (constraints m) =
           map (\<lambda>machine. Constraint
                  (NoOverlap (map task_interval (filter (on_machine machine) (tasks_from 0 jobs_data)))) [])
               machines \<and>
         (\<forall>machine\<in>set machines. filter (on_machine machine) (tasks_from 0 jobs_data) = [] \<longrightarrow>
            Constraint (NoOverlap []) [] \<in> set (constraints m)) \<and>
         (\<forall>\<sigma>. constraint_holds \<sigma> (Constraint (NoOverlap []) []))"
proof -
  note b = JobShop_build_model_Inr [OF assms]
  have 1: "machines = range_py (1 + Max (set (map fst (concat jobs_data))))"
    by (simp add: b machines_count_def)
  have 2: "filter (\<lambda>c. is_NoOverlap (ct_of c)) (constraints m) =
           map (\<lambda>machine. Constraint
                  (NoOverlap (map task_interval (filter (on_machine machine) (tasks_from 0 jobs_data)))) [])
               machines"
    by (simp only: b filter_NoOverlap_built_model)
  have 3: "Constraint (NoOverlap []) [] \<in> set (constraints m)"
    if "machine \<in> set machines" "filter (on_machine machine) (tasks_from 0 jobs_data) = []"
    for machine
  proof -
    have "Constraint (NoOverlap (map task_interval (filter (on_machine machine) (tasks_from 0 jobs_data)))) []
          \<in> set (filter (\<lambda>c. is_NoOverlap (ct_of c)) (constraints m))"
      unfolding 2 using that(1) by (simp add: image_iff) blast
    then show ?thesis by (simp add: that(2))
  qed
  have 4: "\<forall>\<sigma>. constraint_holds \<sigma> (Constraint (NoOverlap []) [])"
    by (simp add: constraint_holds_def)
  from 1 2 3 4 show ?thesis by blast
qed

text \<open>
  Claim C2, as amended. For a non-empty job list without an empty job the builder
  returns a model, whether or not every machine has a task: the machines are
  \<open>range(1 + max observed resource id)\<close>, and for every one of them, in order, the model
  holds one unconditional no-overlap constraint over the whole list of intervals of the
  tasks assigned to that machine (no other no-overlap constraint exists). A machine of
  the range with no task gets its constraint too: it is the no-overlap constraint over
  the empty list, which every assignment satisfies, and building it raises no error.
\<close>

theorem no_overlap_constraint_per_machine:
  assumes "jobs_data \<noteq> []"
    and "[] \<notin> set jobs_data"
  shows "\<exists>m tasks machines. JobShop_build_model jobs_data = Inr (m, tasks, machines) \<and>
  (machines = range_py (1 + Max (set (map fst (concat jobs_data)))) \<and>
            filter (\<lambda>c. is_NoOverlap (ct_of c)) (constraints m) =
              map (\<lambda>machine. Constraint
                     (NoOverlap (map task_interval (filter (on_machine machine) (tasks_from 0 jobs_data)))) [])
                  machines \<and>
            (\<forall>machine\<in>set machines. filter (on_machine machine) (tasks_from 0 jobs_data) = [] \<longrightarrow>
               Constraint (NoOverlap []) [] \<in> set (constraints m)) \<and>
            (\<forall>\<sigma>. constraint_holds \<sigma> (Constraint (NoOverlap []) [])))"
proof -
  have built: "JobShop_build_model jobs_data =
      Inr (built_model jobs_data, task_table jobs_data, range_py (machines_count jobs_data))"
    using assms by (rule JobShop_build_model_total)
  show ?thesis
    by (rule exI [of _ "built_model jobs_data"], rule exI [of _ "task_table jobs_data"],
        rule exI [of _ "range_py (machines_count jobs_data)"],
        rule conjI [OF built no_overlap_constraint_per_machine_built [OF built]])
qed

theorem no_overlap_constraint_per_machine_witness:
  "JobShop_build_model [[(2, 1)]] =
     Inr (built_model [[(2, 1)]], task_table [[(2, 1)]], range_py (machines_count [[(2, 1)]])) \<and>
   range_py (machines_count [[(2, 1)]]) = [0, 1, 2] \<and>
   filter (on_machine 0) (tasks_from 0 [[(2, 1)]]) = [] \<and>
   Constraint (NoOverlap []) [] \<in> set (constraints (built_model [[(2, 1)]]))"
proof -
  have b: "JobShop_build_model [[(2, 1)]] =
     Inr (built_model [[(2, 1)]], task_table [[(2, 1)]], range_py (machines_count [[(2, 1)]]))"
    by (simp add: JobShop_build_model_eq)
  have r: "range_py (machines_count [[(2, 1)]]) = [0, 1, 2]"
    by (simp add: machines_count_def range_py_def upt_rec)
  have e: "filter (on_machine 0) (tasks_from 0 [[(2, 1)]]) = []"
    by (simp add: on_machine_def)
  have h: "[[(2, 1)]] \<noteq> ([] :: (int \<times> int) list list)"
    "[] \<notin> set [[(2, 1 :: int) :: int \<times> int]]"
    by simp_all
  from built_exE [OF no_overlap_constraint_per_machine [OF h] b]
  have "\<forall>machine\<in>set (range_py (machines_count [[(2, 1)]])).
          filter (on_machine machine) (tasks_from 0 [[(2, 1)]]) = [] \<longrightarrow>
          Constraint (NoOverlap []) [] \<in> set (constraints (built_model [[(2, 1)]]))"
    by blast
  with r e have "Constraint (NoOverlap []) [] \<in> set (constraints (built_model [[(2, 1)]]))"
    by simp
  with b r e show ?thesis by blast
qed

text \<open>
  The claim as stated fails on the input \<open>[[(2, 1)]]\<close>: machines 0 and 1 have no task,
  and each of them contributes a no-overlap constraint (over no interval).
\<close>

theorem idle_machine_constraint_counterexample:
  "filter (on_machine 0) (tasks_from 0 [[(2, 1)]]) = [] \<and>
   filter (on_machine 1) (tasks_from 0 [[(2, 1)]]) = [] \<and>
   model_of (JobShop_build_model [[(2, 1)]]) =
     Inr \<lparr>variables = [(StartVar 0 0, 0, 1), (EndVar 0 0, 0, 1), (MakespanVar, 0, 1)],
          intervals = [IntervalVar (StartVar 0 0) (Const 1) (EndVar 0 0)],
          constraints =
            [Constraint (NoOverlap []) [],
             Constraint (NoOverlap []) [],
             Constraint (NoOverlap [IntervalVar (StartVar 0 0) (Const 1) (EndVar 0 0)]) [],
             Constraint (MaxEquality MakespanVar [EndVar 0 0]) []],
          objective = Some MakespanVar\<rparr>"
  by (simp add: model_of_def JobShop_build_model_eq built_model_def horizon_def machines_count_def
      range_py_def task_bounds_def task_interval_def on_machine_def precedences_def
      upt_rec)

section \<open>JobShop.py: which inputs the builder rejects\<close>

text \<open>
  Claim C5, as amended. The script has no loader and the builder validates nothing. It
  raises \<open>ValueError\<close> when there is no task to take the maximum over, in particular for
  the empty job list, and does so before any variable or constraint is built; it raises
  \<open>KeyError\<close> when there are tasks but some job is empty; every other input, whatever
  its durations and resource ids, yields a model.
\<close>

theorem build_model_rejects_only_missing_tasks:
  "(concat jobs_data = [] \<longrightarrow> JobShop_build_model jobs_data = Inl ValueError) \<and>
   (concat jobs_data \<noteq> [] \<and> [] \<in> set jobs_data \<longrightarrow> JobShop_build_model jobs_data = Inl KeyError) \<and>
   (jobs_data \<noteq> [] \<and> [] \<notin> set jobs_data \<longrightarrow>
      (\<exists>m tasks machines. JobShop_build_model jobs_data = Inr (m, tasks, machines)))"
proof -
  have "concat jobs_data \<noteq> []" if "jobs_data \<noteq> []" "[] \<notin> set jobs_data"
    using that by (cases jobs_data) auto
  then show ?thesis
    by (auto simp: JobShop_build_model_eq)
qed

theorem build_model_rejects_only_missing_tasks_witness:
  "concat [] = ([] :: (int \<times> int) list) \<and> JobShop_build_model [] = Inl ValueError \<and>
   concat [[(0, 1)], []] \<noteq> ([] :: (int \<times> int) list) \<and> [] \<in> set [[(0, 1 :: int) :: int \<times> int], []] \<and>
   JobShop_build_model [[(0, 1)], []] = Inl KeyError \<and>
   [[(- 1, 0)]] \<noteq> ([] :: (int \<times> int) list list) \<and> [] \<notin> set [[(- 1, 0 :: int) :: int \<times> int]] \<and>
   (\<exists>m tasks machines. JobShop_build_model [[(- 1, 0)]] = Inr (m, tasks, machines))"
  using build_model_rejects_only_missing_tasks [of "[]"]
    build_model_rejects_only_missing_tasks [of "[[(0, 1)], []]"]
    build_model_rejects_only_missing_tasks [of "[[(- 1, 0)]]"]
  by simp

text \<open>
  The claim as stated fails on the input \<open>[[(-1, 0)]]\<close>, a task with a negative resource
  id and a non-positive duration: the builder accepts it and returns a model.
\<close>

theorem invalid_task_accepted_counterexample:
  "model_of (JobShop_build_model [[(- 1, 0)]]) =
     Inr \<lparr>variables = [(StartVar 0 0, 0, 0), (EndVar 0 0, 0, 0), (MakespanVar, 0, 0)],
          intervals = [IntervalVar (StartVar 0 0) (Const 0) (EndVar 0 0)],
          constraints = [Constraint (MaxEquality MakespanVar [EndVar 0 0]) []],
          objective = Some MakespanVar\<rparr>"
  by (simp add: model_of_def JobShop_build_model_eq built_model_def horizon_def machines_count_def
      range_py_def task_bounds_def task_interval_def on_machine_def precedences_def)

section \<open>JobShop.py: the horizon\<close>

lemma sorted_task_keys: "sorted_wrt (\<lambda>x y. task_key x < task_key y) (tasks_from n jobs)"
proof (induction jobs arbitrary: n)
  case Nil
  then show ?case by simp
next
  case (Cons job jobs)
  have 1: "sorted_wrt (\<lambda>x y. task_key x < task_key y) (map (Pair n) (enumerate k job))" for k
    by (induction job arbitrary: k) (auto simp: task_key_def in_set_enumerate_eq)
  have 2: "task_key x < task_key y"
    if "x \<in> set (map (Pair n) (enumerate 0 job))" "y \<in> set (tasks_from (Suc n) jobs)" for x y
    using that tasks_from_job_ge [of y "Suc n" jobs] by (auto simp: task_key_def)
  show ?case using 1 2 Cons.IH by (simp add: sorted_wrt_append del: set_map)
qed

lemma sum_filter_bounds:
  fixes f :: "'a \<Rightarrow> int"
  assumes "\<forall>x\<in>set xs. 0 \<le> f x"
  shows "0 \<le> sum_list (map f (filter P xs))"
    and "sum_list (map f (filter P xs)) \<le> sum_list (map f xs)"
  using assms by (induction xs) auto

lemma sum_filter_mono:
  fixes f :: "'a \<Rightarrow> int"
  assumes "\<forall>x\<in>set xs. 0 \<le> f x" and "\<And>x. x \<in> set xs \<Longrightarrow> P x \<Longrightarrow> Q x"
  shows "sum_list (map f (filter P xs)) \<le> sum_list (map f (filter Q xs))"
  using assms by (induction xs) auto

lemma sum_filter_le_split:
  fixes k :: "'k :: linorder" and f :: "'a \<Rightarrow> int"
  shows "sum_list (map f (filter (\<lambda>x. key x \<le> k) xs)) =
         sum_list (map f (filter (\<lambda>x. key x < k) xs)) + sum_list (map f (filter (\<lambda>x. key x = k) xs))"
  by (induction xs) auto

lemma sum_filter_key_eq:
  assumes "distinct (map key xs)" and "x \<in> set xs"
  shows "sum_list (map f (filter (\<lambda>y. key y = key x) xs)) = (f x :: int)"
  using assms
proof (induction xs)
  case Nil
  then show ?case by simp
next
  case (Cons y ys)
  show ?case
  proof (cases "x = y")
    case True
    with Cons.prems have "filter (\<lambda>z. key z = key x) ys = []"
      by (auto simp: filter_empty_conv) (metis imageI)
    with True show ?thesis by simp
  next
    case False
    with Cons.prems have "key y \<noteq> key x" by (auto simp: image_iff)
    with Cons False show ?thesis by simp
  qed
qed

lemma durations_tasks_from:
  "(\<forall>x\<in>set (tasks_from n jobs). 0 \<le> task_duration x) \<longleftrightarrow> (\<forall>task\<in>set (concat jobs). 0 \<le> snd task)"
proof -
  have "set (map (\<lambda>x. snd (snd x)) (tasks_from n jobs)) = set (concat jobs)"
    by (simp only: map_task_of_tasks_from)
  then show ?thesis by (force simp: task_duration_def)
qed

lemma sum_durations_tasks_from: "sum_list (map task_duration (tasks_from n jobs)) = horizon jobs"
proof -
  have "map task_duration (tasks_from n jobs) = map snd (map (\<lambda>x. snd (snd x)) (tasks_from n jobs))"
    by (simp add: task_duration_def)
  then show ?thesis by (simp only: map_task_of_tasks_from horizon_def)
qed

lemma serial_interval:
  assumes "x \<in> set (tasks_from 0 jobs)"
  shows "serial_start jobs (fst x) (fst (snd x)) + task_duration x = serial_end jobs (fst x) (fst (snd x))"
proof -
  have "sum_list (map task_duration (filter (\<lambda>y. task_key y = task_key x) (tasks_from 0 jobs))) = task_duration x"
    by (rule sum_filter_key_eq [OF distinct_task_keys assms])
  then show ?thesis
    unfolding serial_start_def serial_end_def
    using sum_filter_le_split [of task_duration task_key "task_key x" "tasks_from 0 jobs"]
    by (simp add: task_key_def)
qed

lemma serial_bounds:
  assumes "\<forall>task\<in>set (concat jobs). 0 \<le> snd task"
  shows "0 \<le> serial_start jobs j t" "serial_start jobs j t \<le> horizon jobs"
    "0 \<le> serial_end jobs j t" "serial_end jobs j t \<le> horizon jobs"
  using assms sum_filter_bounds [of "tasks_from 0 jobs" task_duration]
  unfolding serial_start_def serial_end_def
  by (simp_all add: durations_tasks_from sum_durations_tasks_from)

lemma serial_order:
  assumes "\<forall>task\<in>set (concat jobs). 0 \<le> snd task" and "(j, t) < (j', t')"
  shows "serial_end jobs j t \<le> serial_start jobs j' t'"
  unfolding serial_start_def serial_end_def
proof (rule sum_filter_mono)
  show "\<forall>x\<in>set (tasks_from 0 jobs). 0 \<le> task_duration x"
    using assms(1) by (simp only: durations_tasks_from)
next
  fix x :: "nat \<times> nat \<times> int \<times> int"
  assume "task_key x \<le> (j, t)"
  with assms(2) show "task_key x < (j', t')" by (rule le_less_trans [rotated])
qed

lemma all_pairs_distinct:
  assumes "distinct xs" and "\<And>x y. x \<in> set xs \<Longrightarrow> y \<in> set xs \<Longrightarrow> x \<noteq> y \<Longrightarrow> P x y"
  shows "all_pairs P xs"
  using assms by (induction xs) auto

lemma all_pairs_map: "all_pairs P (map f xs) = all_pairs (\<lambda>x y. P (f x) (f y)) xs"
  by (induction xs) auto

lemma distinct_tasks_from: "distinct (tasks_from n jobs)"
  using distinct_task_keys [of n jobs] by (rule distinct_map [THEN iffD1, THEN conjunct1])

lemma task_key_inj:
  assumes "x \<in> set (tasks_from n jobs)" "y \<in> set (tasks_from n jobs)" "task_key x = task_key y"
  shows "x = y"
  using distinct_task_keys [of n jobs] assms by (auto simp: distinct_map inj_on_def)

lemma serial_no_overlap:
  assumes "\<forall>task\<in>set (concat jobs). 0 \<le> snd task"
  shows "all_pairs (disjoint (serial_schedule jobs))
           (map task_interval (filter (on_machine machine) (tasks_from 0 jobs)))"
  unfolding all_pairs_map
proof (rule all_pairs_distinct)
  show "distinct (filter (on_machine machine) (tasks_from 0 jobs))"
    by (simp add: distinct_tasks_from)
next
  fix x y
  assume x: "x \<in> set (filter (on_machine machine) (tasks_from 0 jobs))"
    and y: "y \<in> set (filter (on_machine machine) (tasks_from 0 jobs))" and "x \<noteq> y"
  then have "task_key x \<noteq> task_key y" using task_key_inj [of x 0 jobs y] by auto
  then consider "task_key x < task_key y" | "task_key y < task_key x" by force
  then show "disjoint (serial_schedule jobs) (task_interval x) (task_interval y)"
  proof cases
    case 1
    from serial_order [OF assms, of "fst x" "fst (snd x)" "fst y" "fst (snd y)"] 1
    show ?thesis by (simp add: disjoint_def task_interval_def task_key_def)
  next
    case 2
    from serial_order [OF assms, of "fst y" "fst (snd y)" "fst x" "fst (snd x)"] 2
    show ?thesis by (simp add: disjoint_def task_interval_def task_key_def)
  qed
qed

lemma serial_makespan:
  assumes "jobs \<noteq> []"
  shows "serial_schedule jobs MakespanVar \<in>
           set (map (\<lambda>(job_id, job). serial_end jobs job_id (length job - 1)) (enumerate 0 jobs))"
    and "\<forall>v\<in>set (map (\<lambda>(job_id, job). serial_end jobs job_id (length job - 1)) (enumerate 0 jobs)).
           v \<le> serial_schedule jobs MakespanVar"
proof -
  let ?A = "set (map (\<lambda>(job_id, job). serial_end jobs job_id (length job - 1)) (enumerate 0 jobs))"
  have "finite ?A" by simp
  moreover have "?A \<noteq> {}" using assms by (cases jobs) simp_all
  ultimately show "serial_schedule jobs MakespanVar \<in> ?A"
    and "\<forall>v\<in>?A. v \<le> serial_schedule jobs MakespanVar"
    unfolding serial_schedule.simps using Max_in Max_ge by blast+
qed

lemma serial_satisfies:
  assumes nonneg: "\<forall>task\<in>set (concat jobs). 0 \<le> snd task" and ne: "jobs \<noteq> []"
  shows "satisfies (serial_schedule jobs) (built_model jobs)"
proof -
  let ?\<sigma> = "serial_schedule jobs"
  note mk = serial_makespan [OF ne]
  have mk_bounds: "0 \<le> ?\<sigma> MakespanVar \<and> ?\<sigma> MakespanVar \<le> horizon jobs"
    using mk(1) serial_bounds(3,4) [OF nonneg] by auto
  have vars: "\<forall>b\<in>set (variables (built_model jobs)). fst (snd b) \<le> ?\<sigma> (fst b) \<and> ?\<sigma> (fst b) \<le> snd (snd b)"
    using serial_bounds [OF nonneg] mk_bounds
    by (auto simp: built_model_def task_bounds_def)
  have ivs: "\<forall>iv\<in>set (intervals (built_model jobs)). interval_ok ?\<sigma> iv"
    using serial_interval [of _ jobs]
    by (auto simp: built_model_def interval_ok_def task_interval_def task_duration_def)
  have no: "constraint_holds ?\<sigma> (Constraint
        (NoOverlap (map task_interval (filter (on_machine machine) (tasks_from 0 jobs)))) [])" for machine
    using serial_no_overlap [OF nonneg] by (simp add: constraint_holds_def)
  have pr: "constraint_holds ?\<sigma> c" if "c \<in> set (precedences 0 jobs)" for c
  proof -
    from that obtain j i where "c = precedence j i" by (auto simp: in_precedences)
    moreover have "serial_end jobs j i \<le> serial_start jobs j (i + 1)"
      by (rule serial_order [OF nonneg]) simp
    ultimately show ?thesis by (simp add: constraint_holds_def precedence_def)
  qed
  have mx: "constraint_holds ?\<sigma> (Constraint (MaxEquality MakespanVar
           (map (\<lambda>(job_id, job). EndVar job_id (length job - 1)) (enumerate 0 jobs))) [])"
    using mk by (simp add: constraint_holds_def case_prod_unfold image_iff del: serial_schedule.simps(3)) 
  have cts: "\<forall>c\<in>set (constraints (built_model jobs)). constraint_holds ?\<sigma> c"
    using no pr mx by (auto simp: built_model_def simp del: serial_schedule.simps(3))
  from vars ivs cts show ?thesis unfolding satisfies_def by blast
qed

lemma task_nonneg:
  assumes "\<forall>task\<in>set (concat jobs). 0 \<le> snd task" "j < length jobs" "t < length (jobs ! j)"
  shows "0 \<le> snd (jobs ! j ! t)"
proof -
  have "jobs ! j \<in> set jobs" using assms(2) by simp
  moreover have "jobs ! j ! t \<in> set (jobs ! j)" using assms(3) by simp
  ultimately have "jobs ! j ! t \<in> set (concat jobs)" by auto
  with assms(1) show ?thesis by blast
qed

lemma end_chain:
  assumes ivs: "\<forall>iv\<in>set (intervals (built_model jobs)). interval_ok \<sigma> iv"
    and cts: "\<forall>c\<in>set (constraints (built_model jobs)). constraint_holds \<sigma> c"
    and nonneg: "\<forall>task\<in>set (concat jobs). 0 \<le> snd task"
    and j: "j < length jobs"
  shows "t + d < length (jobs ! j) \<Longrightarrow> \<sigma> (EndVar j t) \<le> \<sigma> (EndVar j (t + d))"
proof (induction d)
  case 0
  then show ?case by simp
next
  case (Suc d)
  let ?x = "(j, t + d + 1, jobs ! j ! (t + d + 1))"
  from Suc.prems j have x: "?x \<in> set (tasks_from 0 jobs)" by (simp add: in_tasks_from)
  then have "interval_ok \<sigma> (task_interval ?x)" using ivs by (simp add: built_model_def)
  then have eq: "\<sigma> (StartVar j (t + d + 1)) + snd (jobs ! j ! (t + d + 1)) = \<sigma> (EndVar j (t + d + 1))"
    by (simp add: interval_ok_def task_interval_def)
  have ge: "0 \<le> snd (jobs ! j ! (t + d + 1))"
    using Suc.prems j by (intro task_nonneg [OF nonneg]) simp_all
  have "precedence j (t + d) \<in> set (precedences 0 jobs)"
    using Suc.prems j by (auto simp: in_precedences)
  then have "constraint_holds \<sigma> (precedence j (t + d))" using cts by (simp add: built_model_def)
  then have "\<sigma> (EndVar j (t + d)) \<le> \<sigma> (StartVar j (t + d + 1))"
    by (simp add: constraint_holds_def precedence_def)
  with eq ge Suc show ?case by simp
qed

lemma end_le_makespan:
  assumes ivs: "\<forall>iv\<in>set (intervals (built_model jobs)). interval_ok \<sigma> iv"
    and cts: "\<forall>c\<in>set (constraints (built_model jobs)). constraint_holds \<sigma> c"
    and nonneg: "\<forall>task\<in>set (concat jobs). 0 \<le> snd task"
    and j: "j < length jobs" and t: "t < length (jobs ! j)"
  shows "\<sigma> (EndVar j t) \<le> \<sigma> MakespanVar"
proof -
  from t have "t + (length (jobs ! j) - 1 - t) < length (jobs ! j)" by simp
  from end_chain [OF ivs cts nonneg j this] t
  have 1: "\<sigma> (EndVar j t) \<le> \<sigma> (EndVar j (length (jobs ! j) - 1))" by simp
  have "constraint_holds \<sigma> (Constraint (MaxEquality MakespanVar
           (map (\<lambda>(job_id, job). EndVar job_id (length job - 1)) (enumerate 0 jobs))) [])"
    using cts by (simp add: built_model_def)
  then have "\<forall>e\<in>set (map (\<lambda>(job_id, job). EndVar job_id (length job - 1)) (enumerate 0 jobs)). \<sigma> e \<le> \<sigma> MakespanVar"
    by (simp add: constraint_holds_def)
  moreover have "EndVar j (length (jobs ! j) - 1) \<in>
      set (map (\<lambda>(job_id, job). EndVar job_id (length job - 1)) (enumerate 0 jobs))"
    using j by (auto simp: in_set_enumerate_eq image_iff intro!: bexI [of _ "(j, jobs ! j)"])
  ultimately have "\<sigma> (EndVar j (length (jobs ! j) - 1)) \<le> \<sigma> MakespanVar" by blast
  with 1 show ?thesis by simp
qed

lemma makespan_is_some_end:
  assumes cts: "\<forall>c\<in>set (constraints (built_model jobs)). constraint_holds \<sigma> c"
  shows "\<exists>j. j < length jobs \<and> \<sigma> MakespanVar = \<sigma> (EndVar j (length (jobs ! j) - 1))"
proof -
  have "constraint_holds \<sigma> (Constraint (MaxEquality MakespanVar
           (map (\<lambda>(job_id, job). EndVar job_id (length job - 1)) (enumerate 0 jobs))) [])"
    using cts by (simp add: built_model_def)
  then obtain p where "p \<in> set (enumerate 0 jobs)"
    "\<sigma> MakespanVar = \<sigma> (EndVar (fst p) (length (snd p) - 1))"
    by (auto simp: constraint_holds_def)
  then show ?thesis by (auto simp: in_set_enumerate_eq)
qed

lemma capped_by_makespan:
  assumes lbs: "\<forall>b\<in>set (variables (built_model jobs)). 0 \<le> \<sigma> (fst b)"
    and ivs: "\<forall>iv\<in>set (intervals (built_model jobs)). interval_ok \<sigma> iv"
    and cts: "\<forall>c\<in>set (constraints (built_model jobs)). constraint_holds \<sigma> c"
    and nonneg: "\<forall>task\<in>set (concat jobs). 0 \<le> snd task"
    and mk: "\<sigma> MakespanVar \<le> horizon jobs"
  shows "satisfies \<sigma> (built_model jobs)"
proof -
  have "fst (snd b) \<le> \<sigma> (fst b) \<and> \<sigma> (fst b) \<le> snd (snd b)"
    if b: "b \<in> set (variables (built_model jobs))" for b
  proof -
    from b lbs have lb: "0 \<le> \<sigma> (fst b)" by blast
    from b consider x where "x \<in> set (tasks_from 0 jobs)" "b \<in> set (task_bounds (horizon jobs) x)"
      | "b = (MakespanVar, 0, horizon jobs)"
      by (auto simp: built_model_def)
    then show ?thesis
    proof cases
      case 1
      obtain j t task where x: "x = (j, t, task)" by (cases x)
      with 1 have v: "j < length jobs" "t < length (jobs ! j)" "task = jobs ! j ! t"
        by (simp_all add: in_tasks_from)
      from end_le_makespan [OF ivs cts nonneg v(1,2)] mk
      have e: "\<sigma> (EndVar j t) \<le> horizon jobs" by simp
      have "interval_ok \<sigma> (task_interval x)" using 1 ivs by (simp add: built_model_def)
      then have eq: "\<sigma> (StartVar j t) + snd task = \<sigma> (EndVar j t)"
        by (simp add: x interval_ok_def task_interval_def)
      have "0 \<le> snd task"
        using v task_nonneg [OF nonneg v(1,2)] by simp
      with eq e have s: "\<sigma> (StartVar j t) \<le> horizon jobs" by simp
      from 1(2) x e s lb show ?thesis by (auto simp: task_bounds_def)
    next
      case 2
      with lb mk show ?thesis by simp
    qed
  qed
  with ivs cts show ?thesis unfolding satisfies_def by blast
qed

lemma variables_bounds_built_model:
  "b \<in> set (variables (built_model jobs)) \<Longrightarrow> fst (snd b) = 0 \<and> snd (snd b) = horizon jobs"
  by (auto simp: built_model_def task_bounds_def)

lemma task_variables_built_model:
  assumes "j < length jobs" "t < length (jobs ! j)"
  shows "(StartVar j t, 0, horizon jobs) \<in> set (variables (built_model jobs))"
    "(EndVar j t, 0, horizon jobs) \<in> set (variables (built_model jobs))"
proof -
  from assms have "(j, t, jobs ! j ! t) \<in> set (tasks_from 0 jobs)" by (simp add: in_tasks_from)
  then show "(StartVar j t, 0, horizon jobs) \<in> set (variables (built_model jobs))"
    "(EndVar j t, 0, horizon jobs) \<in> set (variables (built_model jobs))"
    by (auto simp: built_model_def task_bounds_def intro!: bexI [of _ "(j, t, jobs ! j ! t)"])
qed

lemma horizon_admits_serial_schedule_built:
  assumes "JobShop_build_model jobs_data = Inr (m, tasks, machines)"
  shows "(\<forall>b\<in>set (variables m). fst (snd b) = 0 \<and> snd (snd b) = sum_list (map snd (concat jobs_data))) \<and>
         (\<forall>j t. j < length jobs_data \<and> t < length (jobs_data ! j) \<longrightarrow>
            (\<exists>tt. tasks (j, t) = Some tt \<and>
                  (tt_start tt, 0, sum_list (map snd (concat jobs_data))) \<in> set (variables m) \<and>
                  (tt_end tt, 0, sum_list (map snd (concat jobs_data))) \<in> set (variables m))) \<and>
         ((\<forall>task\<in>set (concat jobs_data). 0 \<le> snd task) \<longrightarrow>
            satisfies (serial_schedule jobs_data) m \<and>
            serial_schedule jobs_data MakespanVar \<le> sum_list (map snd (concat jobs_data)) \<and>
            (\<forall>\<sigma>. (\<forall>b\<in>set (variables m). 0 \<le> \<sigma> (fst b)) \<and>
                  (\<forall>iv\<in>set (intervals m). interval_ok \<sigma> iv) \<and>
                  (\<forall>c\<in>set (constraints m). constraint_holds \<sigma> c) \<longrightarrow>
                  (\<exists>\<sigma>'. satisfies \<sigma>' m \<and> \<sigma>' MakespanVar \<le> \<sigma> MakespanVar)))"
proof -
  note b = JobShop_build_model_Inr [OF assms]
  from b(1) have ne: "jobs_data \<noteq> []" by auto
  have 1: "\<forall>b\<in>set (variables m). fst (snd b) = 0 \<and> snd (snd b) = sum_list (map snd (concat jobs_data))"
    using variables_bounds_built_model [of _ jobs_data] by (simp add: b horizon_def)
  have 2: "\<exists>tt. tasks (j, t) = Some tt \<and>
                  (tt_start tt, 0, sum_list (map snd (concat jobs_data))) \<in> set (variables m) \<and>
                  (tt_end tt, 0, sum_list (map snd (concat jobs_data))) \<in> set (variables m)"
    if "j < length jobs_data \<and> t < length (jobs_data ! j)" for j t
    using that task_variables_built_model [of j jobs_data t]
    by (simp add: b task_table_def task_entry_def horizon_def)
  have 3: "satisfies (serial_schedule jobs_data) m \<and>
            serial_schedule jobs_data MakespanVar \<le> sum_list (map snd (concat jobs_data)) \<and>
            (\<forall>\<sigma>. (\<forall>b\<in>set (variables m). 0 \<le> \<sigma> (fst b)) \<and>
                  (\<forall>iv\<in>set (intervals m). interval_ok \<sigma> iv) \<and>
                  (\<forall>c\<in>set (constraints m). constraint_holds \<sigma> c) \<longrightarrow>
                  (\<exists>\<sigma>'. satisfies \<sigma>' m \<and> \<sigma>' MakespanVar \<le> \<sigma> MakespanVar))"
    if nonneg: "\<forall>task\<in>set (concat jobs_data). 0 \<le> snd task"
  proof (intro conjI allI impI)
    show s: "satisfies (serial_schedule jobs_data) m"
      using serial_satisfies [OF nonneg ne] by (simp add: b)
    have "(MakespanVar, 0, horizon jobs_data) \<in> set (variables m)"
      by (simp add: b built_model_def)
    with s show le: "serial_schedule jobs_data MakespanVar \<le> sum_list (map snd (concat jobs_data))"
      unfolding satisfies_def horizon_def by fastforce
    fix \<sigma>
    assume a: "(\<forall>b\<in>set (variables m). 0 \<le> \<sigma> (fst b)) \<and>
                  (\<forall>iv\<in>set (intervals m). interval_ok \<sigma> iv) \<and>
                  (\<forall>c\<in>set (constraints m). constraint_holds \<sigma> c)"
    show "\<exists>\<sigma>'. satisfies \<sigma>' m \<and> \<sigma>' MakespanVar \<le> \<sigma> MakespanVar"
    proof (cases "\<sigma> MakespanVar \<le> horizon jobs_data")
      case True
      from a have "satisfies \<sigma> (built_model jobs_data)"
        unfolding b(3) by (intro capped_by_makespan nonneg True) blast+
      then show ?thesis unfolding b(3) by blast
    next
      case False
      with le have "serial_schedule jobs_data MakespanVar \<le> \<sigma> MakespanVar"
        unfolding horizon_def by simp
      with s show ?thesis by blast
    qed
  qed
  from 1 2 3 show ?thesis by blast
qed

text \<open>
  Claim C3. For a non-empty job list without an empty job the builder returns a model,
  and in it: every variable of the model is bounded to \<open>[0, horizon]\<close>, where \<open>horizon\<close>
  is the sum of all task durations, and the start and end variable of every task are
  among them. For non-negative durations, the
  serial schedule satisfies the whole model, bounds included, with a makespan of at most
  \<open>horizon\<close>; and the bound loses no optimum: for every assignment that meets the
  intervals, the constraints and the lower bounds, some assignment that also meets the
  upper bounds has a makespan no larger.
\<close>

theorem horizon_admits_serial_schedule:
  assumes "jobs_data \<noteq> []"
    and "[] \<notin> set jobs_data"
  shows "\<exists>m tasks machines. JobShop_build_model jobs_data = Inr (m, tasks, machines) \<and>
  ((\<forall>b\<in>set (variables m). fst (snd b) = 0 \<and> snd (snd b) = sum_list (map snd (concat jobs_data))) \<and>
            (\<forall>j t. j < length jobs_data \<and> t < length (jobs_data ! j) \<longrightarrow>
               (\<exists>tt. tasks (j, t) = Some tt \<and>
                     (tt_start tt, 0, sum_list (map snd (concat jobs_data))) \<in> set (variables m) \<and>
                     (tt_end tt, 0, sum_list (map snd (concat jobs_data))) \<in> set (variables m))) \<and>
            ((\<forall>task\<in>set (concat jobs_data). 0 \<le> snd task) \<longrightarrow>
               satisfies (serial_schedule jobs_data) m \<and>
               serial_schedule jobs_data MakespanVar \<le> sum_list (map snd (concat jobs_data)) \<and>
               (\<forall>\<sigma>. (\<forall>b\<in>set (variables m). 0 \<le> \<sigma> (fst b)) \<and>
                     (\<forall>iv\<in>set (intervals m). interval_ok \<sigma> iv) \<and>
                     (\<forall>c\<in>set (constraints m). constraint_holds \<sigma> c) \<longrightarrow>
                     (\<exists>\<sigma>'. satisfies \<sigma>' m \<and> \<sigma>' MakespanVar \<le> \<sigma> MakespanVar))))"
proof -
  have built: "JobShop_build_model jobs_data =
      Inr (built_model jobs_data, task_table jobs_data, range_py (machines_count jobs_data))"
    using assms by (rule JobShop_build_model_total)
  show ?thesis
    by (rule exI [of _ "built_model jobs_data"], rule exI [of _ "task_table jobs_data"],
        rule exI [of _ "range_py (machines_count jobs_data)"],
        rule conjI [OF built horizon_admits_serial_schedule_built [OF built]])
qed

lemma serial_values:
  "serial_schedule [[(0, 3), (1, 2)], [(1, 4)]] (StartVar 0 0) = 0"
  "serial_schedule [[(0, 3), (1, 2)], [(1, 4)]] (EndVar 0 0) = 3"
  "serial_schedule [[(0, 3), (1, 2)], [(1, 4)]] (StartVar 0 1) = 3"
  "serial_schedule [[(0, 3), (1, 2)], [(1, 4)]] (EndVar 0 1) = 5"
  "serial_schedule [[(0, 3), (1, 2)], [(1, 4)]] (StartVar 1 0) = 5"
  "serial_schedule [[(0, 3), (1, 2)], [(1, 4)]] (EndVar 1 0) = 9"
  "serial_schedule [[(0, 3), (1, 2)], [(1, 4)]] MakespanVar = 9"
  by (simp_all add: serial_start_def serial_end_def task_key_def task_duration_def)

theorem horizon_admits_serial_schedule_witness:
  "JobShop_build_model [[(0, 3), (1, 2)], [(1, 4)]] =
     Inr (built_model [[(0, 3), (1, 2)], [(1, 4)]], task_table [[(0, 3), (1, 2)], [(1, 4)]],
          range_py (machines_count [[(0, 3), (1, 2)], [(1, 4)]])) \<and>
   satisfies (serial_schedule [[(0, 3), (1, 2)], [(1, 4)]]) (built_model [[(0, 3), (1, 2)], [(1, 4)]]) \<and>
   serial_schedule [[(0, 3), (1, 2)], [(1, 4)]] MakespanVar = 9 \<and>
   sum_list (map snd (concat [[(0, 3), (1, 2)], [(1, 4 :: int)] :: (int \<times> int) list])) = 9"
proof -
  have b: "JobShop_build_model [[(0, 3), (1, 2)], [(1, 4)]] =
     Inr (built_model [[(0, 3), (1, 2)], [(1, 4)]], task_table [[(0, 3), (1, 2)], [(1, 4)]],
          range_py (machines_count [[(0, 3), (1, 2)], [(1, 4)]]))"
    by (simp add: JobShop_build_model_eq)
  have n: "\<forall>task\<in>set (concat [[(0, 3), (1, 2)], [(1, 4 :: int)] :: (int \<times> int) list]). 0 \<le> snd task"
    by simp
  have h: "[[(0, 3), (1, 2)], [(1, 4)]] \<noteq> ([] :: (int \<times> int) list list)"
    "[] \<notin> set [[(0, 3), (1, 2)], [(1, 4 :: int)] :: (int \<times> int) list]"
    by simp_all
  from built_exE [OF horizon_admits_serial_schedule [OF h] b] n
  have "satisfies (serial_schedule [[(0, 3), (1, 2)], [(1, 4)]]) (built_model [[(0, 3), (1, 2)], [(1, 4)]])"
    by blast
  with b show ?thesis by (simp add: serial_values del: serial_schedule.simps)
qed

section \<open>JobShop.py: what the decoder returns\<close>

lemma update_fresh: "k \<notin> fst ` set al \<Longrightarrow> AList.update k v al = al @ [(k, v)]"
  by (induction al) auto

lemma fold_update_distinct:
  assumes "distinct (map key xs)" and "set (map key xs) \<inter> fst ` set acc = {}"
  shows "fold (\<lambda>x. AList.update (key x) (val x)) xs acc = acc @ map (\<lambda>x. (key x, val x)) xs"
  using assms
proof (induction xs arbitrary: acc)
  case Nil
  then show ?case by simp
next
  case (Cons x xs)
  from Cons.prems have fresh: "key x \<notin> fst ` set acc" by auto
  have "set (map key xs) \<inter> fst ` set (acc @ [(key x, val x)]) = {}"
    using Cons.prems by auto
  with Cons.IH [of "acc @ [(key x, val x)]"] Cons.prems fresh show ?case
    by (simp add: update_fresh)
qed

lemma assign_task_step:
  assumes "x \<in> set (tasks_from 0 jobs)"
  shows "assign_task solver (task_table jobs) (fst x) (snd x) (Inr f) =
         Inr (f(fst (snd (snd x)) := f (fst (snd (snd x))) @ [assigned_task (Value solver) x]))"
proof -
  obtain j t task where x: "x = (j, t, task)" by (cases x)
  with assms have "j < length jobs" "t < length (jobs ! j)" "task = jobs ! j ! t"
    by (simp_all add: in_tasks_from)
  then show ?thesis
    by (simp add: x assign_task_def task_table_def task_entry_def assigned_task_def Let_def)
qed

lemma assign_loop:
  assumes "set xs \<subseteq> set (tasks_from 0 jobs)"
  shows "fold (\<lambda>(j, t, task). assign_task solver (task_table jobs) j (t, task)) xs (Inr f) =
         Inr (\<lambda>machine. f machine @ map (assigned_task (Value solver)) (filter (on_machine machine) xs))"
  using assms
proof (induction xs arbitrary: f)
  case Nil
  then show ?case by simp
next
  case (Cons x xs)
  from Cons.prems have x: "x \<in> set (tasks_from 0 jobs)" and xs: "set xs \<subseteq> set (tasks_from 0 jobs)"
    by auto
  have step: "(case x of (j, t, task) \<Rightarrow> assign_task solver (task_table jobs) j (t, task)) (Inr f) =
      Inr (f(fst (snd (snd x)) := f (fst (snd (snd x))) @ [assigned_task (Value solver) x]))"
    using assign_task_step [OF x, of solver f] by (simp add: case_prod_unfold)
  show ?case
    unfolding fold_Cons comp_apply step Cons.IH [OF xs]
    by (auto simp: on_machine_def [abs_def] fun_eq_iff)
qed

lemma machine_lines_eq:
  assumes "distinct (map (\<lambda>a. (fst (snd a), fst (snd (snd a)))) assigned)"
  shows "machine_lines assigned = map timetable_line (sort assigned)"
proof -
  have "distinct (map (\<lambda>a. (fst (snd a), fst (snd (snd a)))) (sort assigned))"
    using assms by (simp add: distinct_map)
  from fold_update_distinct [OF this, of "[]" "\<lambda>a. (fst a, fst a + snd (snd (snd a)))"]
  show ?thesis by (simp add: machine_lines_def timetable_line_def Let_def)
qed

lemma machine_lines_assigned:
  "machine_lines (map (assigned_task \<sigma>) (filter P (tasks_from 0 jobs))) =
   map timetable_line (sort (map (assigned_task \<sigma>) (filter P (tasks_from 0 jobs))))"
proof (rule machine_lines_eq)
  have eq: "(\<lambda>a. (fst (snd a), fst (snd (snd a)))) \<circ> assigned_task \<sigma> = task_key"
    by (auto simp: fun_eq_iff assigned_task_def task_key_def)
  have "distinct (map task_key (filter P (tasks_from 0 jobs)))"
    using distinct_task_keys [of 0 jobs] by (rule distinct_map_filter)
  then show "distinct (map (\<lambda>a. (fst (snd a), fst (snd (snd a))))
      (map (assigned_task \<sigma>) (filter P (tasks_from 0 jobs))))"
    by (simp add: eq)
qed

lemma JobShop_build_response_eq:
  assumes "status = OPTIMAL \<or> status = FEASIBLE" and "distinct machines"
  shows "JobShop_build_response jobs solver status (task_table jobs) machines =
         Inr (Some (ObjectiveValue solver, decoded_timetable jobs (Value solver) machines))"
proof -
  have loop: "fold (\<lambda>(job_id, job). fold (assign_task solver (task_table jobs) job_id) (enumerate 0 job))
                (enumerate 0 jobs) (Inr (\<lambda>_. [])) =
              Inr (\<lambda>machine. map (assigned_task (Value solver)) (filter (on_machine machine) (tasks_from 0 jobs)))"
    unfolding fold_nested_enumerate using assign_loop [of "tasks_from 0 jobs" jobs solver "\<lambda>_. []"]
    by simp
  have out: "fold (\<lambda>machine. AList.update machine (g machine)) machines [] =
             map (\<lambda>machine. (machine, g machine)) machines" for g :: "int \<Rightarrow> ((nat \<times> nat) \<times> (int \<times> int)) list"
    using fold_update_distinct [of "\<lambda>m. m" machines "[]" g] assms(2) by simp
  show ?thesis
    unfolding JobShop_build_response_def loop
    using assms(1) by (simp add: out decoded_timetable_def machine_lines_assigned)
qed

lemma distinct_range_py: "distinct (range_py n)"
  by (simp add: range_py_def distinct_map inj_on_def)

lemma all_pairs_sym_D:
  assumes "all_pairs P xs" and "\<And>a b. P a b \<Longrightarrow> P b a"
    and "x \<in> set xs" "y \<in> set xs" "x \<noteq> y"
  shows "P x y"
  using assms by (induction xs) auto

lemma in_range_py: "r \<in> set (range_py n) \<longleftrightarrow> 0 \<le> r \<and> r < n"
proof
  assume "r \<in> set (range_py n)"
  then show "0 \<le> r \<and> r < n" by (auto simp: range_py_def)
next
  assume "0 \<le> r \<and> r < n"
  then have "r = int (nat r)" "nat r \<in> set [0..<nat n]" by simp_all
  then show "r \<in> set (range_py n)" unfolding range_py_def set_map
    by (rule image_eqI)
qed

lemma timetable_line_assigned:
  "timetable_line (assigned_task \<sigma> x) =
     (task_key x, (\<sigma> (StartVar (fst x) (fst (snd x))),
                   \<sigma> (StartVar (fst x) (fst (snd x))) + task_duration x))"
  by (simp add: timetable_line_def assigned_task_def task_key_def task_duration_def)

lemma in_decoded_lines:
  "l \<in> set (timetable_lines (decoded_timetable jobs \<sigma> machines)) \<longleftrightarrow>
     (\<exists>x\<in>set (tasks_from 0 jobs). fst (snd (snd x)) \<in> set machines \<and>
        l = timetable_line (assigned_task \<sigma> x))"
  by (auto simp: timetable_lines_def decoded_timetable_def on_machine_def)

lemma interval_of_task:
  assumes "\<forall>iv\<in>set (intervals (built_model jobs)). interval_ok \<sigma> iv"
    and "x \<in> set (tasks_from 0 jobs)"
  shows "\<sigma> (StartVar (fst x) (fst (snd x))) + task_duration x = \<sigma> (EndVar (fst x) (fst (snd x)))"
proof -
  from assms have "interval_ok \<sigma> (task_interval x)" by (simp add: built_model_def)
  then show ?thesis by (simp add: interval_ok_def task_interval_def task_duration_def)
qed

lemma decoded_no_overlap:
  assumes sat: "satisfies \<sigma> (built_model jobs)"
  shows "timetable_no_overlap (decoded_timetable jobs \<sigma> (range_py (machines_count jobs)))"
  unfolding timetable_no_overlap_def
proof
  fix entry
  assume "entry \<in> set (decoded_timetable jobs \<sigma> (range_py (machines_count jobs)))"
  then obtain machine where machine: "machine \<in> set (range_py (machines_count jobs))"
    and entry: "snd entry = map timetable_line
       (sort (map (assigned_task \<sigma>) (filter (on_machine machine) (tasks_from 0 jobs))))"
    by (auto simp: decoded_timetable_def)
  let ?xs = "filter (on_machine machine) (tasks_from 0 jobs)"
  let ?P = "\<lambda>a b. snd (snd b) \<le> fst (snd a) \<or> snd (snd a) \<le> fst (snd b)"
  from sat have ivs: "\<forall>iv\<in>set (intervals (built_model jobs)). interval_ok \<sigma> iv"
    by (simp add: satisfies_def)
  have "Constraint (NoOverlap (map task_interval ?xs)) [] \<in> set (constraints (built_model jobs))"
    using machine unfolding built_model_def by (simp add: image_iff) (rule disjI1, rule bexI [of _ machine], simp_all)
  with sat have "constraint_holds \<sigma> (Constraint (NoOverlap (map task_interval ?xs)) [])"
    unfolding satisfies_def by blast
  then have no: "all_pairs (disjoint \<sigma>) (map task_interval ?xs)"
    by (simp add: constraint_holds_def)
  have inj: "inj_on (assigned_task \<sigma>) (set ?xs)"
    by (auto simp: inj_on_def assigned_task_def prod_eq_iff on_machine_def)
  have pair: "?P (timetable_line (assigned_task \<sigma> x)) (timetable_line (assigned_task \<sigma> y))"
    if x: "x \<in> set ?xs" and y: "y \<in> set ?xs" and ne: "x \<noteq> y" for x y
  proof -
    have "task_interval x \<noteq> task_interval y"
      using task_key_inj [of x 0 jobs y] x y ne by (auto simp: task_interval_def task_key_def)
    moreover have "task_interval x \<in> set (map task_interval ?xs)"
      "task_interval y \<in> set (map task_interval ?xs)"
      using x y by simp_all
    ultimately have "disjoint \<sigma> (task_interval x) (task_interval y)"
      using all_pairs_sym_D [OF no, of "task_interval x" "task_interval y"]
      by (auto simp: disjoint_def)
    moreover have "x \<in> set (tasks_from 0 jobs)" "y \<in> set (tasks_from 0 jobs)" using x y by simp_all
    ultimately show ?thesis
      using interval_of_task [OF ivs, of x] interval_of_task [OF ivs, of y]
      by (auto simp: timetable_line_assigned disjoint_def task_interval_def)
  qed
  have "all_pairs (\<lambda>a b. ?P (timetable_line a) (timetable_line b))
          (sort (map (assigned_task \<sigma>) ?xs))"
  proof (rule all_pairs_distinct)
    show "distinct (sort (map (assigned_task \<sigma>) ?xs))"
      using inj by (simp add: distinct_map distinct_tasks_from)
  next
    fix a b
    assume a: "a \<in> set (sort (map (assigned_task \<sigma>) ?xs))"
      and b: "b \<in> set (sort (map (assigned_task \<sigma>) ?xs))" and ne: "a \<noteq> b"
    from a obtain x where x: "x \<in> set ?xs" "a = assigned_task \<sigma> x" by auto
    from b obtain y where y: "y \<in> set ?xs" "b = assigned_task \<sigma> y" by auto
    from ne x(2) y(2) have "x \<noteq> y" by blast
    from pair [OF x(1) y(1) this] show "?P (timetable_line a) (timetable_line b)"
      by (simp only: x(2) y(2))
  qed
  then show "all_pairs ?P (snd entry)" by (simp add: entry all_pairs_map)
qed

lemma decoded_precedence:
  assumes sat: "satisfies \<sigma> (built_model jobs)"
  shows "timetable_precedence (decoded_timetable jobs \<sigma> machines)"
  unfolding timetable_precedence_def
proof (intro ballI impI)
  fix a b
  assume a: "a \<in> set (timetable_lines (decoded_timetable jobs \<sigma> machines))"
    and b: "b \<in> set (timetable_lines (decoded_timetable jobs \<sigma> machines))"
    and ab: "fst (fst b) = fst (fst a) \<and> snd (fst b) = snd (fst a) + 1"
  from sat have ivs: "\<forall>iv\<in>set (intervals (built_model jobs)). interval_ok \<sigma> iv"
    by (simp add: satisfies_def)
  from a obtain x where x: "x \<in> set (tasks_from 0 jobs)" "a = timetable_line (assigned_task \<sigma> x)"
    by (auto simp: in_decoded_lines)
  from b obtain y where y: "y \<in> set (tasks_from 0 jobs)" "b = timetable_line (assigned_task \<sigma> y)"
    by (auto simp: in_decoded_lines)
  obtain j i task where xx: "x = (j, i, task)" by (cases x)
  from ab x y xx have ky: "fst y = j" "fst (snd y) = i + 1"
    by (simp_all add: timetable_line_assigned task_key_def)
  obtain task' where "y = (j, i + 1, task')" using ky by (cases y) auto
  with y(1) have "j < length jobs" "i + 1 < length (jobs ! j)"
    by (simp_all add: in_tasks_from)
  then have "precedence j i \<in> set (precedences 0 jobs)" by (auto simp: in_precedences)
  with sat have "constraint_holds \<sigma> (precedence j i)"
    unfolding satisfies_def by (simp add: built_model_def)
  then have "\<sigma> (EndVar j i) \<le> \<sigma> (StartVar j (i + 1))"
    by (simp add: constraint_holds_def precedence_def)
  with interval_of_task [OF ivs x(1)] show "snd (snd a) \<le> fst (snd b)"
    by (simp add: x y xx ky timetable_line_assigned)
qed

lemma decoded_makespan:
  assumes sat: "satisfies \<sigma> (built_model jobs)" and ne: "[] \<notin> set jobs"
    and nonneg: "\<forall>task\<in>set (concat jobs). 0 \<le> fst task \<and> 0 \<le> snd task"
  shows "timetable_makespan (decoded_timetable jobs \<sigma> (range_py (machines_count jobs))) = \<sigma> MakespanVar"
proof -
  let ?tt = "decoded_timetable jobs \<sigma> (range_py (machines_count jobs))"
  from sat have ivs: "\<forall>iv\<in>set (intervals (built_model jobs)). interval_ok \<sigma> iv"
    and cts: "\<forall>c\<in>set (constraints (built_model jobs)). constraint_holds \<sigma> c"
    by (simp_all add: satisfies_def)
  from nonneg have dur: "\<forall>task\<in>set (concat jobs). 0 \<le> snd task" by blast
  have on: "fst (snd (snd x)) \<in> set (range_py (machines_count jobs))"
    if "x \<in> set (tasks_from 0 jobs)" for x
  proof -
    from that have "snd (snd x) \<in> set (map (\<lambda>x. snd (snd x)) (tasks_from 0 jobs))" by simp
    then have mem: "snd (snd x) \<in> set (concat jobs)" by (simp only: map_task_of_tasks_from)
    then have "fst (snd (snd x)) \<le> Max (set (map fst (concat jobs)))" by (intro Max_ge) simp_all
    moreover from mem nonneg have "0 \<le> fst (snd (snd x))" by blast
    ultimately show ?thesis by (simp add: in_range_py machines_count_def)
  qed
  have ends: "set (map (\<lambda>l. snd (snd l)) (timetable_lines ?tt)) =
              (\<lambda>x. \<sigma> (EndVar (fst x) (fst (snd x)))) ` set (tasks_from 0 jobs)" (is "?L = ?R")
  proof (intro set_eqI iffI)
    fix v assume "v \<in> ?L"
    then obtain l where l: "l \<in> set (timetable_lines ?tt)" "v = snd (snd l)" by auto
    from l(1) obtain x where x: "x \<in> set (tasks_from 0 jobs)" "l = timetable_line (assigned_task \<sigma> x)"
      unfolding in_decoded_lines by blast
    have "v = \<sigma> (EndVar (fst x) (fst (snd x)))"
      using interval_of_task [OF ivs x(1)] by (simp add: l(2) x(2) timetable_line_assigned)
    with x(1) show "v \<in> ?R" by (rule image_eqI [rotated])
  next
    fix v assume "v \<in> ?R"
    then obtain x where x: "x \<in> set (tasks_from 0 jobs)" "v = \<sigma> (EndVar (fst x) (fst (snd x)))"
      by auto
    then have "timetable_line (assigned_task \<sigma> x) \<in> set (timetable_lines ?tt)"
      unfolding in_decoded_lines using on [OF x(1)] by blast
    moreover have "v = snd (snd (timetable_line (assigned_task \<sigma> x)))"
      using interval_of_task [OF ivs x(1)] x(2) by (simp add: timetable_line_assigned)
    ultimately show "v \<in> ?L" unfolding set_map by (rule image_eqI [rotated])
  qed
  have "Max ?R = \<sigma> MakespanVar"
  proof (rule Max_eqI)
    show "finite ?R" by simp
  next
    fix v assume "v \<in> ?R"
    then obtain j t task where "(j, t, task) \<in> set (tasks_from 0 jobs)" "v = \<sigma> (EndVar j t)"
      by auto
    then show "v \<le> \<sigma> MakespanVar"
      using end_le_makespan [OF ivs cts dur, of j t] by (simp add: in_tasks_from)
  next
    from makespan_is_some_end [OF cts] obtain j where j: "j < length jobs"
      "\<sigma> MakespanVar = \<sigma> (EndVar j (length (jobs ! j) - 1))" by blast
    from j(1) ne have "jobs ! j \<noteq> []" by (metis nth_mem)
    then have "(j, length (jobs ! j) - 1, jobs ! j ! (length (jobs ! j) - 1)) \<in> set (tasks_from 0 jobs)"
      using j(1) by (simp add: in_tasks_from)
    moreover have "\<sigma> MakespanVar =
       (\<lambda>x. \<sigma> (EndVar (fst x) (fst (snd x)))) (j, length (jobs ! j) - 1, jobs ! j ! (length (jobs ! j) - 1))"
      using j(2) by simp
    ultimately show "\<sigma> MakespanVar \<in> ?R" by (rule image_eqI [rotated])
  qed
  then show ?thesis by (simp only: timetable_makespan_def ends)
qed

section \<open>JobShop.py: the reference instance\<close>

lemma built_model_main:
  "built_model jobs_data_main =
     \<lparr>variables =
        [(StartVar 0 0, 0, 21), (EndVar 0 0, 0, 21), (StartVar 0 1, 0, 21), (EndVar 0 1, 0, 21),
         (StartVar 0 2, 0, 21), (EndVar 0 2, 0, 21), (StartVar 1 0, 0, 21), (EndVar 1 0, 0, 21),
         (StartVar 1 1, 0, 21), (EndVar 1 1, 0, 21), (StartVar 1 2, 0, 21), (EndVar 1 2, 0, 21),
         (StartVar 2 0, 0, 21), (EndVar 2 0, 0, 21), (StartVar 2 1, 0, 21), (EndVar 2 1, 0, 21),
         (MakespanVar, 0, 21)],
      intervals =
        [IntervalVar (StartVar 0 0) (Const 3) (EndVar 0 0),
         IntervalVar (StartVar 0 1) (Const 2) (EndVar 0 1),
         IntervalVar (StartVar 0 2) (Const 2) (EndVar 0 2),
         IntervalVar (StartVar 1 0) (Const 2) (EndVar 1 0),
         IntervalVar (StartVar 1 1) (Const 1) (EndVar 1 1),
         IntervalVar (StartVar 1 2) (Const 4) (EndVar 1 2),
         IntervalVar (StartVar 2 0) (Const 4) (EndVar 2 0),
         IntervalVar (StartVar 2 1) (Const 3) (EndVar 2 1)],
      constraints =
        [Constraint (NoOverlap [IntervalVar (StartVar 0 0) (Const 3) (EndVar 0 0),
                                IntervalVar (StartVar 1 0) (Const 2) (EndVar 1 0)]) [],
         Constraint (NoOverlap [IntervalVar (StartVar 0 1) (Const 2) (EndVar 0 1),
                                IntervalVar (StartVar 1 2) (Const 4) (EndVar 1 2),
                                IntervalVar (StartVar 2 0) (Const 4) (EndVar 2 0)]) [],
         Constraint (NoOverlap [IntervalVar (StartVar 0 2) (Const 2) (EndVar 0 2),
                                IntervalVar (StartVar 1 1) (Const 1) (EndVar 1 1),
                                IntervalVar (StartVar 2 1) (Const 3) (EndVar 2 1)]) [],
         Constraint (GreaterEq (StartVar 0 1) (EndVar 0 0)) [],
         Constraint (GreaterEq (StartVar 0 2) (EndVar 0 1)) [],
         Constraint (GreaterEq (StartVar 1 1) (EndVar 1 0)) [],
         Constraint (GreaterEq (StartVar 1 2) (EndVar 1 1)) [],
         Constraint (GreaterEq (StartVar 2 1) (EndVar 2 0)) [],
         Constraint (MaxEquality MakespanVar [EndVar 0 2, EndVar 1 2, EndVar 2 1]) []],
      objective = Some MakespanVar\<rparr>"
  by (simp add: jobs_data_main_def built_model_def horizon_def machines_count_def
      range_py_def task_bounds_def task_interval_def on_machine_def precedences_def upt_rec)

lemma main_lower_bound:
  assumes "satisfies \<sigma> (built_model jobs_data_main)"
  shows "11 \<le> \<sigma> MakespanVar"
proof -
  from assms have
    iv: "\<sigma> (EndVar 0 0) = \<sigma> (StartVar 0 0) + 3" "\<sigma> (EndVar 0 1) = \<sigma> (StartVar 0 1) + 2"
        "\<sigma> (EndVar 0 2) = \<sigma> (StartVar 0 2) + 2" "\<sigma> (EndVar 1 0) = \<sigma> (StartVar 1 0) + 2"
        "\<sigma> (EndVar 1 1) = \<sigma> (StartVar 1 1) + 1" "\<sigma> (EndVar 1 2) = \<sigma> (StartVar 1 2) + 4"
        "\<sigma> (EndVar 2 0) = \<sigma> (StartVar 2 0) + 4" "\<sigma> (EndVar 2 1) = \<sigma> (StartVar 2 1) + 3"
    and lb: "0 \<le> \<sigma> (StartVar 0 0)" "0 \<le> \<sigma> (StartVar 1 0)" "0 \<le> \<sigma> (StartVar 2 0)"
    and pr: "\<sigma> (EndVar 0 0) \<le> \<sigma> (StartVar 0 1)" "\<sigma> (EndVar 0 1) \<le> \<sigma> (StartVar 0 2)"
        "\<sigma> (EndVar 1 0) \<le> \<sigma> (StartVar 1 1)" "\<sigma> (EndVar 1 1) \<le> \<sigma> (StartVar 1 2)"
        "\<sigma> (EndVar 2 0) \<le> \<sigma> (StartVar 2 1)"
    and mx: "\<sigma> (EndVar 0 2) \<le> \<sigma> MakespanVar" "\<sigma> (EndVar 1 2) \<le> \<sigma> MakespanVar"
        "\<sigma> (EndVar 2 1) \<le> \<sigma> MakespanVar"
    and m0: "\<sigma> (EndVar 1 0) \<le> \<sigma> (StartVar 0 0) \<or> \<sigma> (EndVar 0 0) \<le> \<sigma> (StartVar 1 0)"
    and m1: "\<sigma> (EndVar 1 2) \<le> \<sigma> (StartVar 0 1) \<or> \<sigma> (EndVar 0 1) \<le> \<sigma> (StartVar 1 2)"
        "\<sigma> (EndVar 2 0) \<le> \<sigma> (StartVar 0 1) \<or> \<sigma> (EndVar 0 1) \<le> \<sigma> (StartVar 2 0)"
        "\<sigma> (EndVar 2 0) \<le> \<sigma> (StartVar 1 2) \<or> \<sigma> (EndVar 1 2) \<le> \<sigma> (StartVar 2 0)"
    and m2: "\<sigma> (EndVar 1 1) \<le> \<sigma> (StartVar 0 2) \<or> \<sigma> (EndVar 0 2) \<le> \<sigma> (StartVar 1 1)"
        "\<sigma> (EndVar 2 1) \<le> \<sigma> (StartVar 0 2) \<or> \<sigma> (EndVar 0 2) \<le> \<sigma> (StartVar 2 1)"
        "\<sigma> (EndVar 2 1) \<le> \<sigma> (StartVar 1 1) \<or> \<sigma> (EndVar 1 1) \<le> \<sigma> (StartVar 2 1)"
    unfolding built_model_main satisfies_def
    by (simp_all add: interval_ok_def constraint_holds_def disjoint_def)
  show ?thesis
    using iv lb pr mx m0 m1 m2 by linarith
qed

lemma reference_schedule_satisfies: "satisfies reference_schedule (built_model jobs_data_main)"
  unfolding built_model_main satisfies_def
  by (simp add: interval_ok_def constraint_holds_def disjoint_def reference_schedule_def)

lemma machines_main: "range_py (machines_count jobs_data_main) = [0, 1, 2]"
  by (simp add: jobs_data_main_def machines_count_def range_py_def upt_rec)

lemma build_model_main:
  "JobShop_build_model jobs_data_main =
     Inr (built_model jobs_data_main, task_table jobs_data_main, [0, 1, 2])"
  unfolding JobShop_build_model_eq machines_main by (simp add: jobs_data_main_def)

lemma decoded_main:
  "decoded_timetable jobs_data_main reference_schedule [0, 1, 2] =
     [(0, [((1, 0), (0, 2)), ((0, 0), (2, 5))]),
      (1, [((2, 0), (0, 4)), ((0, 1), (5, 7)), ((1, 2), (7, 11))]),
      (2, [((1, 1), (2, 3)), ((2, 1), (4, 7)), ((0, 2), (7, 9))])]"
  by (simp add: decoded_timetable_def jobs_data_main_def on_machine_def assigned_task_def
      timetable_line_def reference_schedule_def)

lemma reference_answer_optimal: "optimal_answer (built_model jobs_data_main) reference_answer"
  unfolding optimal_answer_def reference_answer_def
  using reference_schedule_satisfies main_lower_bound
  by (simp add: built_model_def reference_schedule_def)

lemma reference_instance_optimum_built:
  assumes "JobShop_build_model jobs_data_main = Inr (m, tasks, machines)"
  shows "(\<exists>\<sigma>. satisfies \<sigma> m \<and> \<sigma> MakespanVar = 11) \<and>
         (\<forall>\<sigma>. satisfies \<sigma> m \<longrightarrow> 11 \<le> \<sigma> MakespanVar) \<and>
         objective m = Some MakespanVar \<and>
         (\<forall>solver. optimal_answer m solver \<longrightarrow>
            (\<exists>timetable.
               JobShop_build_response jobs_data_main solver OPTIMAL tasks machines =
                 Inr (Some (11, timetable)) \<and>
               timetable_no_overlap timetable \<and> timetable_precedence timetable))"
proof -
  note b = JobShop_build_model_Inr [OF assms]
  have ex: "\<exists>\<sigma>. satisfies \<sigma> m \<and> \<sigma> MakespanVar = 11"
    using reference_schedule_satisfies unfolding b(3)
    by (intro exI [of _ reference_schedule]) (simp add: reference_schedule_def)
  have lb: "\<forall>\<sigma>. satisfies \<sigma> m \<longrightarrow> 11 \<le> \<sigma> MakespanVar"
    unfolding b(3) using main_lower_bound by blast
  have obj: "objective m = Some MakespanVar"
    by (simp add: b(3) built_model_def)
  have dec: "\<exists>timetable.
               JobShop_build_response jobs_data_main solver OPTIMAL tasks machines =
                 Inr (Some (11, timetable)) \<and>
               timetable_no_overlap timetable \<and> timetable_precedence timetable"
    if opt: "optimal_answer m solver" for solver
  proof -
    from opt obj have sat: "satisfies (Value solver) (built_model jobs_data_main)"
      and val: "ObjectiveValue solver = Value solver MakespanVar"
      and le: "\<forall>\<sigma>. satisfies \<sigma> (built_model jobs_data_main) \<longrightarrow> Value solver MakespanVar \<le> \<sigma> MakespanVar"
      unfolding optimal_answer_def b(3) by simp_all
    from le reference_schedule_satisfies have "Value solver MakespanVar \<le> reference_schedule MakespanVar"
      by blast
    then have "Value solver MakespanVar \<le> 11" by (simp add: reference_schedule_def)
    with main_lower_bound [OF sat] val have eleven: "ObjectiveValue solver = 11" by simp
    have "JobShop_build_response jobs_data_main solver OPTIMAL tasks machines =
            Inr (Some (11, decoded_timetable jobs_data_main (Value solver) (range_py (machines_count jobs_data_main))))"
      unfolding b(4,5) eleven [symmetric]
      by (rule JobShop_build_response_eq) (simp_all add: distinct_range_py)
    with decoded_no_overlap [OF sat] decoded_precedence [OF sat]
    show ?thesis by blast
  qed
  from ex lb obj dec show ?thesis by blast
qed

text \<open>
  Claim C6. For the three-job reference instance of the script the builder returns a
  model, and for it: some assignment satisfies the model with makespan 11 and no
  satisfying assignment has a smaller makespan, so the minimum is 11; and for every
  answer that meets the solver's contract for the status OPTIMAL, the decoder returns
  the makespan 11 together with a timetable that satisfies the non-overlap and the
  precedence invariant.
\<close>

theorem reference_instance_optimum:
  shows "\<exists>m tasks machines. JobShop_build_model jobs_data_main = Inr (m, tasks, machines) \<and>
  ((\<exists>\<sigma>. satisfies \<sigma> m \<and> \<sigma> MakespanVar = 11) \<and>
            (\<forall>\<sigma>. satisfies \<sigma> m \<longrightarrow> 11 \<le> \<sigma> MakespanVar) \<and>
            objective m = Some MakespanVar \<and>
            (\<forall>solver. optimal_answer m solver \<longrightarrow>
               (\<exists>timetable.
                  JobShop_build_response jobs_data_main solver OPTIMAL tasks machines =
                    Inr (Some (11, timetable)) \<and>
                  timetable_no_overlap timetable \<and> timetable_precedence timetable)))"
proof -
  show ?thesis
    by (rule exI [of _ "built_model jobs_data_main"], rule exI [of _ "task_table jobs_data_main"],
        rule exI [of _ "[0, 1, 2]"],
        rule conjI [OF build_model_main reference_instance_optimum_built [OF build_model_main]])
qed

theorem reference_instance_optimum_witness:
  "JobShop_build_model jobs_data_main =
     Inr (built_model jobs_data_main, task_table jobs_data_main, [0, 1, 2]) \<and>
   optimal_answer (built_model jobs_data_main) reference_answer \<and>
   JobShop_build_response jobs_data_main reference_answer OPTIMAL (task_table jobs_data_main) [0, 1, 2] =
     Inr (Some (11,
       [(0, [((1, 0), (0, 2)), ((0, 0), (2, 5))]),
        (1, [((2, 0), (0, 4)), ((0, 1), (5, 7)), ((1, 2), (7, 11))]),
        (2, [((1, 1), (2, 3)), ((2, 1), (4, 7)), ((0, 2), (7, 9))])])) \<and>
   timetable_no_overlap
       [(0, [((1, 0), (0, 2)), ((0, 0), (2, 5))]),
        (1, [((2, 0), (0, 4)), ((0, 1), (5, 7)), ((1, 2), (7, 11))]),
        (2, [((1, 1), (2, 3)), ((2, 1), (4, 7)), ((0, 2), (7, 9))])] \<and>
   timetable_precedence
       [(0, [((1, 0), (0, 2)), ((0, 0), (2, 5))]),
        (1, [((2, 0), (0, 4)), ((0, 1), (5, 7)), ((1, 2), (7, 11))]),
        (2, [((1, 1), (2, 3)), ((2, 1), (4, 7)), ((0, 2), (7, 9))])]"
proof -
  let ?tt = "[(0, [((1, 0), (0, 2)), ((0, 0), (2, 5))]),
        (1, [((2, 0), (0, 4)), ((0, 1), (5, 7)), ((1, 2), (7, 11))]),
        (2, [((1, 1), (2, 3)), ((2, 1), (4, 7)), ((0, 2), (7, 9))])] :: timetable"
  have run: "JobShop_build_response jobs_data_main reference_answer OPTIMAL (task_table jobs_data_main) [0, 1, 2] =
     Inr (Some (11, ?tt))"
    using JobShop_build_response_eq [of OPTIMAL "[0, 1, 2]" jobs_data_main reference_answer]
    by (simp add: decoded_main reference_answer_def)
  from built_exE [OF reference_instance_optimum build_model_main] reference_answer_optimal
  obtain timetable where
    "JobShop_build_response jobs_data_main reference_answer OPTIMAL (task_table jobs_data_main) [0, 1, 2] =
       Inr (Some (11, timetable))"
    "timetable_no_overlap timetable" "timetable_precedence timetable"
    by blast
  with run have "timetable_no_overlap ?tt" "timetable_precedence ?tt" by simp_all
  with run build_model_main reference_answer_optimal show ?thesis by blast
qed

section \<open>JobShop.py: the makespan reported by the decoder\<close>

lemma decoder_returns_oracle_objective_built:
  assumes "status = OPTIMAL \<or> status = FEASIBLE"
    and "JobShop_build_model jobs_data = Inr (m, tasks, machines)"
  shows "\<exists>timetable.
           JobShop_build_response jobs_data solver status tasks machines =
             Inr (Some (ObjectiveValue solver, timetable)) \<and>
           (satisfies (Value solver) m \<and> ObjectiveValue solver = Value solver MakespanVar \<and>
            (\<forall>task\<in>set (concat jobs_data). 0 \<le> fst task \<and> 0 \<le> snd task) \<longrightarrow>
              timetable_makespan timetable = ObjectiveValue solver)"
proof -
  note b = JobShop_build_model_Inr [OF assms(2)]
  let ?tt = "decoded_timetable jobs_data (Value solver) (range_py (machines_count jobs_data))"
  have "JobShop_build_response jobs_data solver status tasks machines =
          Inr (Some (ObjectiveValue solver, ?tt))"
    unfolding b(4,5) using assms(1) distinct_range_py by (rule JobShop_build_response_eq)
  moreover have "timetable_makespan ?tt = ObjectiveValue solver"
    if "satisfies (Value solver) m \<and> ObjectiveValue solver = Value solver MakespanVar \<and>
        (\<forall>task\<in>set (concat jobs_data). 0 \<le> fst task \<and> 0 \<le> snd task)"
    using that decoded_makespan [of "Value solver" jobs_data] b(2) unfolding b(3) by simp
  ultimately show ?thesis by blast
qed

text \<open>
  Claim C4, as amended. For a model built from a non-empty job list without an empty
  job and the status OPTIMAL or FEASIBLE, the decoder returns the objective value
  reported by the solver, as it is, together with the timetable: it
  neither recomputes the makespan from the timetable nor asserts anything, whatever the
  solver's values are. When the values satisfy the built model, the objective value is
  the value of the makespan variable, and no resource id or duration is negative, the
  returned value equals the latest end over all timetable lines.
\<close>

theorem decoder_returns_oracle_objective:
  assumes "status = OPTIMAL \<or> status = FEASIBLE"
    and "jobs_data \<noteq> []"
    and "[] \<notin> set jobs_data"
  shows "\<exists>m tasks machines. JobShop_build_model jobs_data = Inr (m, tasks, machines) \<and>
  (\<exists>timetable.
              JobShop_build_response jobs_data solver status tasks machines =
                Inr (Some (ObjectiveValue solver, timetable)) \<and>
              (satisfies (Value solver) m \<and> ObjectiveValue solver = Value solver MakespanVar \<and>
               (\<forall>task\<in>set (concat jobs_data). 0 \<le> fst task \<and> 0 \<le> snd task) \<longrightarrow>
                 timetable_makespan timetable = ObjectiveValue solver))"
proof -
  have built: "JobShop_build_model jobs_data =
      Inr (built_model jobs_data, task_table jobs_data, range_py (machines_count jobs_data))"
    using assms(2,3) by (rule JobShop_build_model_total)
  show ?thesis
    by (rule exI [of _ "built_model jobs_data"], rule exI [of _ "task_table jobs_data"],
        rule exI [of _ "range_py (machines_count jobs_data)"],
        rule conjI [OF built decoder_returns_oracle_objective_built [OF assms(1) built]])
qed

theorem decoder_returns_oracle_objective_witness:
  "JobShop_build_model jobs_data_main =
     Inr (built_model jobs_data_main, task_table jobs_data_main, [0, 1, 2]) \<and>
   satisfies (Value reference_answer) (built_model jobs_data_main) \<and>
   ObjectiveValue reference_answer = Value reference_answer MakespanVar \<and>
   JobShop_build_response jobs_data_main reference_answer OPTIMAL (task_table jobs_data_main) [0, 1, 2] =
     Inr (Some (11,
       [(0, [((1, 0), (0, 2)), ((0, 0), (2, 5))]),
        (1, [((2, 0), (0, 4)), ((0, 1), (5, 7)), ((1, 2), (7, 11))]),
        (2, [((1, 1), (2, 3)), ((2, 1), (4, 7)), ((0, 2), (7, 9))])])) \<and>
   timetable_makespan
       [(0, [((1, 0), (0, 2)), ((0, 0), (2, 5))]),
        (1, [((2, 0), (0, 4)), ((0, 1), (5, 7)), ((1, 2), (7, 11))]),
        (2, [((1, 1), (2, 3)), ((2, 1), (4, 7)), ((0, 2), (7, 9))])] = 11"
proof -
  let ?tt = "[(0, [((1, 0), (0, 2)), ((0, 0), (2, 5))]),
        (1, [((2, 0), (0, 4)), ((0, 1), (5, 7)), ((1, 2), (7, 11))]),
        (2, [((1, 1), (2, 3)), ((2, 1), (4, 7)), ((0, 2), (7, 9))])] :: timetable"
  have sat: "satisfies (Value reference_answer) (built_model jobs_data_main)"
    and val: "ObjectiveValue reference_answer = Value reference_answer MakespanVar"
    and obj: "ObjectiveValue reference_answer = 11"
    using reference_schedule_satisfies by (simp_all add: reference_answer_def reference_schedule_def)
  have nonneg: "\<forall>task\<in>set (concat jobs_data_main). 0 \<le> fst task \<and> 0 \<le> snd task"
    by (simp add: jobs_data_main_def)
  have run: "JobShop_build_response jobs_data_main reference_answer OPTIMAL (task_table jobs_data_main) [0, 1, 2] =
     Inr (Some (11, ?tt))"
    using JobShop_build_response_eq [of OPTIMAL "[0, 1, 2]" jobs_data_main reference_answer]
    by (simp add: decoded_main reference_answer_def)
  have h: "jobs_data_main \<noteq> []" "[] \<notin> set jobs_data_main"
    by (simp_all add: jobs_data_main_def)
  have st: "OPTIMAL = OPTIMAL \<or> OPTIMAL = FEASIBLE" by simp
  from built_exE [OF decoder_returns_oracle_objective [OF st h, of reference_answer] build_model_main]
    sat val nonneg
  obtain timetable where
    "JobShop_build_response jobs_data_main reference_answer OPTIMAL (task_table jobs_data_main) [0, 1, 2] =
       Inr (Some (ObjectiveValue reference_answer, timetable))"
    "timetable_makespan timetable = ObjectiveValue reference_answer"
    by blast
  with run obj have "timetable_makespan ?tt = 11" by simp
  with run build_model_main sat val show ?thesis by blast
qed

text \<open>
  The claim as stated fails on an answer whose objective value, 99, is not the latest end
  of its own timetable, 11: an assertion would raise, the decoder returns 99.
\<close>

theorem decoder_makes_no_assertion_counterexample:
  "JobShop_build_model jobs_data_main =
     Inr (built_model jobs_data_main, task_table jobs_data_main, [0, 1, 2]) \<and>
   ObjectiveValue inconsistent_answer = 99 \<and>
   JobShop_build_response jobs_data_main inconsistent_answer OPTIMAL (task_table jobs_data_main) [0, 1, 2] =
     Inr (Some (99,
       [(0, [((1, 0), (0, 2)), ((0, 0), (2, 5))]),
        (1, [((2, 0), (0, 4)), ((0, 1), (5, 7)), ((1, 2), (7, 11))]),
        (2, [((1, 1), (2, 3)), ((2, 1), (4, 7)), ((0, 2), (7, 9))])])) \<and>
   timetable_makespan
       [(0, [((1, 0), (0, 2)), ((0, 0), (2, 5))]),
        (1, [((2, 0), (0, 4)), ((0, 1), (5, 7)), ((1, 2), (7, 11))]),
        (2, [((1, 1), (2, 3)), ((2, 1), (4, 7)), ((0, 2), (7, 9))])] = 11"
proof -
  have run: "JobShop_build_response jobs_data_main inconsistent_answer OPTIMAL (task_table jobs_data_main) [0, 1, 2] =
     Inr (Some (99,
       [(0, [((1, 0), (0, 2)), ((0, 0), (2, 5))]),
        (1, [((2, 0), (0, 4)), ((0, 1), (5, 7)), ((1, 2), (7, 11))]),
        (2, [((1, 1), (2, 3)), ((2, 1), (4, 7)), ((0, 2), (7, 9))])]))"
    using JobShop_build_response_eq [of OPTIMAL "[0, 1, 2]" jobs_data_main inconsistent_answer]
    by (simp add: decoded_main inconsistent_answer_def)
  have "timetable_makespan
       [(0, [((1, 0), (0, 2)), ((0, 0), (2, 5))]),
        (1, [((2, 0), (0, 4)), ((0, 1), (5, 7)), ((1, 2), (7, 11))]),
        (2, [((1, 1), (2, 3)), ((2, 1), (4, 7)), ((0, 2), (7, 9))])] = 11"
    by (simp add: timetable_makespan_def timetable_lines_def)
  with run build_model_main show ?thesis by (simp add: inconsistent_answer_def)
qed

section \<open>SchedulingRoman.py: what the builder returns\<close>

lemma new_int_vars_eq:
  "new_int_vars lb ub names m = m\<lparr>variables := variables m @ map (\<lambda>v. (v, lb, ub)) names\<rparr>"
  unfolding new_int_vars_def by (induction names arbitrary: m) (simp_all add: NewIntVar_def)

lemma new_bool_vars_eq:
  "new_bool_vars names m = m\<lparr>variables := variables m @ map (\<lambda>v. (v, 0, 1)) names\<rparr>"
  unfolding new_bool_vars_def by (induction names arbitrary: m) (simp_all add: NewBoolVar_def NewIntVar_def)

lemma new_interval_vars_eq:
  "new_interval_vars ivs m = m\<lparr>intervals := intervals m @ ivs\<rparr>"
  unfolding new_interval_vars_def by (induction ivs arbitrary: m) (simp_all add: NewIntervalVar_def)

lemma fold_Add_eq:
  "fold (\<lambda>x. Add (f x)) xs m = m\<lparr>constraints := constraints m @ map (\<lambda>x. Constraint (f x) []) xs\<rparr>"
  by (induction xs arbitrary: m) (simp_all add: Add_def)

lemma fold_Add2_eq:
  "fold (\<lambda>x m. Add (g x) (Add (f x) m)) xs m =
   m\<lparr>constraints := constraints m @ concat (map (\<lambda>x. [Constraint (f x) [], Constraint (g x) []]) xs)\<rparr>"
  by (induction xs arbitrary: m) (simp_all add: Add_def)

lemma add_conditional_Inl: "fold (add_conditional T lit d) ks (Inl e) = Inl e"
  by (induction ks) (simp_all add: add_conditional_def)

lemma add_conditional_loop:
  "fold (add_conditional T lit d) ks (Inr m) =
     (if set ks \<subseteq> dom T
      then Inr (m\<lparr>constraints := constraints m @
                  map (\<lambda>k. Constraint (VarEqConst d (the (T k))) [lit k]) ks\<rparr>)
      else Inl KeyError)"
proof (induction ks arbitrary: m)
  case Nil
  then show ?case by simp
next
  case (Cons k ks)
  show ?case
  proof (cases "T k")
    case None
    then have "add_conditional T lit d k (Inr m) = Inl KeyError"
      by (simp add: add_conditional_def)
    moreover from None have "\<not> set (k # ks) \<subseteq> dom T" by auto
    ultimately show ?thesis by (simp add: add_conditional_Inl del: set_simps)
  next
    case (Some v)
    then have "add_conditional T lit d k (Inr m) = Inr (Add_OnlyEnforceIf (VarEqConst d v) (lit k) m)"
      by (simp add: add_conditional_def)
    then show ?thesis using Some Cons.IH by (auto simp: Add_OnlyEnforceIf_def)
  qed
qed

lemma conditional_loops_Inl:
  "fold (\<lambda>i acc. fold (add_conditional T_out (lo i) (d i)) outputs
                    (fold (add_conditional T_in (li i) (d i)) inputs acc)) batches (Inl e) = Inl e"
  by (induction batches) (simp_all add: add_conditional_Inl)

lemma conditional_loops:
  "fold (\<lambda>i acc. fold (add_conditional (Tout inp) (A_O i) (D_INPUT i)) (Outputs inp)
                    (fold (add_conditional (Tin inp) (A_I i) (D_INPUT i)) (Inputs inp) acc))
     batches (Inr m) =
   (if batches = [] \<or> set (Inputs inp) \<subseteq> dom (Tin inp) \<and> set (Outputs inp) \<subseteq> dom (Tout inp)
    then Inr (m\<lparr>constraints := constraints m @ concat (map (conditionals inp) batches)\<rparr>)
    else Inl KeyError)"
proof (induction batches arbitrary: m)
  case Nil
  then show ?case by simp
next
  case (Cons i batches)
  show ?case
    by (simp add: add_conditional_loop add_conditional_Inl conditional_loops_Inl Cons.IH
        conditionals_def [abs_def])
qed

lemma AddNoOverlap2D_eq:
  "AddNoOverlap2D xs ys m = m\<lparr>constraints := constraints m @ [Constraint (NoOverlap2D xs ys) []]\<rparr>"
  by (simp add: AddNoOverlap2D_def Add_def)

lemma SchedulingRoman_build_model_eq:
  "SchedulingRoman_build_model inp =
     (if 0 < NoBatches inp \<and> set (Inputs inp) \<subseteq> dom (Tin inp) \<and> set (Outputs inp) \<subseteq> dom (Tout inp)
      then Inr (batch_model inp) else Inl KeyError)"
proof -
  let ?batches = "[0..<nat (NoBatches inp)]"
  have last: "NoBatches inp - 1 \<in> set (map int ?batches) \<longleftrightarrow> 0 < NoBatches inp"
  proof
    assume "NoBatches inp - 1 \<in> set (map int ?batches)"
    then show "0 < NoBatches inp" by auto
  next
    assume "0 < NoBatches inp"
    then have "NoBatches inp - 1 = int (nat (NoBatches inp - 1))" "nat (NoBatches inp - 1) \<in> set ?batches"
      by simp_all
    then show "NoBatches inp - 1 \<in> set (map int ?batches)"
      unfolding set_map by (rule image_eqI)
  qed
  have empty: "?batches = [] \<longleftrightarrow> \<not> 0 < NoBatches inp" by auto
  show ?thesis
    unfolding SchedulingRoman_build_model_def Let_def conditional_loops last empty
    by (simp add: batch_model_def Let_def comp_def new_int_vars_eq new_bool_vars_eq new_interval_vars_eq
        fold_Add_eq fold_Add2_eq AddNoOverlap2D_eq Minimize_def CpModel_def)
qed

lemma build_model_batch_main:
  "SchedulingRoman_build_model input_data_main = Inr (batch_model input_data_main)"
  by (simp add: SchedulingRoman_build_model_eq input_data_main_def)

lemma batches_main: "[0..<nat (NoBatches input_data_main)] = [0, 1, 2, 3, 4, 5, 6, 7, 8, 9]"
  by (simp add: input_data_main_def upt_rec)

lemma staggered_satisfies: "satisfies staggered (batch_model input_data_main)"
proof -
  have vars: "\<forall>b\<in>set (variables (batch_model input_data_main)).
      fst (snd b) \<le> staggered (fst b) \<and> staggered (fst b) \<le> snd (snd b)"
    unfolding batch_model_def Let_def batches_main
    by (simp add: input_data_main_def)
  have ivs: "\<forall>iv\<in>set (intervals (batch_model input_data_main)). interval_ok staggered iv"
    unfolding batch_model_def Let_def batches_main
    by (simp add: input_data_main_def interval_ok_def)
  have cts: "\<forall>c\<in>set (constraints (batch_model input_data_main)). constraint_holds staggered c"
    unfolding batch_model_def Let_def batches_main
    by (simp add: input_data_main_def constraint_holds_def conditionals_def disjoint_def)
  from vars ivs cts show ?thesis unfolding satisfies_def by blast
qed

lemma SchedulingRoman_build_model_Inr:
  assumes "SchedulingRoman_build_model inp = Inr m"
  shows "m = batch_model inp" "0 < NoBatches inp"
    "set (Inputs inp) \<subseteq> dom (Tin inp)" "set (Outputs inp) \<subseteq> dom (Tout inp)"
  using assms by (auto simp: SchedulingRoman_build_model_eq split: if_splits)

lemma SchedulingRoman_build_model_total:
  assumes "0 < NoBatches inp" and "set (Inputs inp) \<subseteq> dom (Tin inp)"
    and "set (Outputs inp) \<subseteq> dom (Tout inp)"
  shows "SchedulingRoman_build_model inp = Inr (batch_model inp)"
  using assms by (simp add: SchedulingRoman_build_model_eq)

lemma model_exE:
  assumes "\<exists>m. r = Inr m \<and> P m" and "r = Inr m0"
  shows "P m0"
  using assms by auto

lemma input_data_main_ok:
  "0 < NoBatches input_data_main" "set (Inputs input_data_main) \<subseteq> dom (Tin input_data_main)"
  "set (Outputs input_data_main) \<subseteq> dom (Tout input_data_main)"
  by (simp_all add: input_data_main_def)

lemma constraints_batch_model:
  "constraints (batch_model inp) =
     map (\<lambda>i. Constraint (SumEq (map (A_I i) (Inputs inp)) 1) []) [0..<nat (NoBatches inp)] @
     map (\<lambda>i. Constraint (SumEq (map (A_O i) (Outputs inp)) 1) []) [0..<nat (NoBatches inp)] @
     concat (map (conditionals inp) [0..<nat (NoBatches inp)]) @
     concat (map (\<lambda>i. [Constraint (VarEqVar (S_BUFFER i) (E_INPUT i)) [],
                        Constraint (VarEqVar (S_OUTPUT i) (E_BUFFER i)) []]) [0..<nat (NoBatches inp)]) @
     [Constraint (NoOverlap2D
        (map (\<lambda>i. IntervalVar (S_BUFFER i) (Var (D_BUFFER i)) (E_BUFFER i)) [0..<nat (NoBatches inp)])
        (map (\<lambda>i. IntervalVar (V_BUFFER_1 i) (Const (V inp)) (V_BUFFER_2 i)) [0..<nat (NoBatches inp)])) []]"
  by (simp add: batch_model_def Let_def)

lemma in_conditionals:
  "c \<in> set (conditionals inp i) \<longleftrightarrow>
     (\<exists>k\<in>set (Inputs inp). c = Constraint (VarEqConst (D_INPUT i) (the (Tin inp k))) [A_I i k]) \<or>
     (\<exists>k\<in>set (Outputs inp). c = Constraint (VarEqConst (D_INPUT i) (the (Tout inp k))) [A_O i k])"
  by (auto simp: conditionals_def)

lemma in_constraints_batch_model:
  "c \<in> set (constraints (batch_model inp)) \<longleftrightarrow>
     (\<exists>i<nat (NoBatches inp).
        c = Constraint (SumEq (map (A_I i) (Inputs inp)) 1) [] \<or>
        c = Constraint (SumEq (map (A_O i) (Outputs inp)) 1) [] \<or>
        c \<in> set (conditionals inp i) \<or>
        c = Constraint (VarEqVar (S_BUFFER i) (E_INPUT i)) [] \<or>
        c = Constraint (VarEqVar (S_OUTPUT i) (E_BUFFER i)) []) \<or>
     c = Constraint (NoOverlap2D
        (map (\<lambda>i. IntervalVar (S_BUFFER i) (Var (D_BUFFER i)) (E_BUFFER i)) [0..<nat (NoBatches inp)])
        (map (\<lambda>i. IntervalVar (V_BUFFER_1 i) (Const (V inp)) (V_BUFFER_2 i)) [0..<nat (NoBatches inp)])) []"
  unfolding constraints_batch_model by auto

lemma filter_SumEq_batch_model:
  "filter (\<lambda>c. is_SumEq (ct_of c)) (constraints (batch_model inp)) =
     map (\<lambda>i. Constraint (SumEq (map (A_I i) (Inputs inp)) 1) []) [0..<nat (NoBatches inp)] @
     map (\<lambda>i. Constraint (SumEq (map (A_O i) (Outputs inp)) 1) []) [0..<nat (NoBatches inp)]"
proof -
  have "filter (\<lambda>c. is_SumEq (ct_of c)) (concat (map (conditionals inp) bs)) = []" for bs
    by (auto simp: filter_empty_conv in_conditionals)
  moreover have "filter (\<lambda>c. is_SumEq (ct_of c))
      (concat (map (\<lambda>i. [Constraint (VarEqVar (S_BUFFER i) (E_INPUT i)) [],
                        Constraint (VarEqVar (S_OUTPUT i) (E_BUFFER i)) []]) bs)) = []" for bs :: "nat list"
    by (auto simp: filter_empty_conv)
  ultimately show ?thesis
    unfolding constraints_batch_model filter_append by (simp add: filter_map comp_def)
qed

lemma indicator_variables:
  assumes "i < nat (NoBatches inp)"
  shows "k \<in> set (Inputs inp) \<Longrightarrow> (A_I i k, 0, 1) \<in> set (variables (batch_model inp))"
    and "k \<in> set (Outputs inp) \<Longrightarrow> (A_O i k, 0, 1) \<in> set (variables (batch_model inp))"
proof -
  assume k: "k \<in> set (Inputs inp)"
  with assms have "A_I i k \<in> set (concat (map (\<lambda>i. map (A_I i) (Inputs inp)) [0..<nat (NoBatches inp)]))"
    by auto
  then have "(A_I i k, 0, 1) \<in> set (map (\<lambda>v. (v, 0 :: int, 1 :: int))
      (concat (map (\<lambda>i. map (A_I i) (Inputs inp)) [0..<nat (NoBatches inp)])))"
    unfolding set_map by (rule imageI)
  then show "(A_I i k, 0, 1) \<in> set (variables (batch_model inp))"
    by (simp add: batch_model_def Let_def)
next
  assume k: "k \<in> set (Outputs inp)"
  with assms have "A_O i k \<in> set (concat (map (\<lambda>i. map (A_O i) (Outputs inp)) [0..<nat (NoBatches inp)]))"
    by auto
  then have "(A_O i k, 0, 1) \<in> set (map (\<lambda>v. (v, 0 :: int, 1 :: int))
      (concat (map (\<lambda>i. map (A_O i) (Outputs inp)) [0..<nat (NoBatches inp)])))"
    unfolding set_map by (rule imageI)
  then show "(A_O i k, 0, 1) \<in> set (variables (batch_model inp))"
    by (simp add: batch_model_def Let_def)
qed

lemma satisfies_bounds:
  "satisfies \<sigma> m \<Longrightarrow> (v, lb, ub) \<in> set (variables m) \<Longrightarrow> lb \<le> \<sigma> v \<and> \<sigma> v \<le> ub"
  unfolding satisfies_def by fastforce

lemma indicator_bounds:
  assumes "satisfies \<sigma> (batch_model inp)" "i < nat (NoBatches inp)"
  shows "k \<in> set (Inputs inp) \<Longrightarrow> \<sigma> (A_I i k) = 1 \<or> \<sigma> (A_I i k) = 0"
    and "k \<in> set (Outputs inp) \<Longrightarrow> \<sigma> (A_O i k) = 1 \<or> \<sigma> (A_O i k) = 0"
proof -
  assume k: "k \<in> set (Inputs inp)"
  from satisfies_bounds [OF assms(1) indicator_variables(1) [OF assms(2) k]]
  show "\<sigma> (A_I i k) = 1 \<or> \<sigma> (A_I i k) = 0" by arith
next
  assume k: "k \<in> set (Outputs inp)"
  from satisfies_bounds [OF assms(1) indicator_variables(2) [OF assms(2) k]]
  show "\<sigma> (A_O i k) = 1 \<or> \<sigma> (A_O i k) = 0" by arith
qed

lemma sum_zero_one:
  fixes f :: "'a \<Rightarrow> int"
  assumes "\<forall>x\<in>set xs. f x = 1 \<or> f x = 0" and "sum_list (map f xs) = 0"
  shows "\<forall>x\<in>set xs. f x = 0"
  using assms
proof (induction xs)
  case Nil
  then show ?case by simp
next
  case (Cons a xs)
  have "0 \<le> sum_list (map f xs)" using Cons.prems(1) by (intro sum_list_nonneg) auto
  with Cons show ?case by auto
qed

lemma exactly_one_of_sum:
  fixes f :: "'a \<Rightarrow> int"
  assumes "\<forall>x\<in>set xs. f x = 1 \<or> f x = 0" and "sum_list (map f xs) = 1"
  shows "\<exists>!x. x \<in> set xs \<and> f x = 1"
  using assms
proof (induction xs)
  case Nil
  then show ?case by simp
next
  case (Cons a xs)
  from Cons.prems(1) have a: "f a = 1 \<or> f a = 0" and rest: "\<forall>x\<in>set xs. f x = 1 \<or> f x = 0"
    by simp_all
  from a show ?case
  proof
    assume one: "f a = 1"
    with Cons.prems(2) have "sum_list (map f xs) = 0" by simp
    from sum_zero_one [OF rest this] one show ?thesis by auto
  next
    assume zero: "f a = 0"
    with Cons.prems(2) have "sum_list (map f xs) = 1" by simp
    from Cons.IH [OF rest this] zero show ?thesis by auto
  qed
qed

lemma satisfies_constraint:
  "satisfies \<sigma> m \<Longrightarrow> c \<in> set (constraints m) \<Longrightarrow> constraint_holds \<sigma> c"
  unfolding satisfies_def by blast

lemma exactly_one_input:
  assumes sat: "satisfies \<sigma> (batch_model inp)" and i: "i < nat (NoBatches inp)"
  shows "\<exists>!k. k \<in> set (Inputs inp) \<and> \<sigma> (A_I i k) = 1"
proof -
  have "Constraint (SumEq (map (A_I i) (Inputs inp)) 1) [] \<in> set (constraints (batch_model inp))"
    unfolding in_constraints_batch_model using i by blast
  from satisfies_constraint [OF sat this]
  have "sum_list (map (\<lambda>k. \<sigma> (A_I i k)) (Inputs inp)) = 1"
    by (simp add: constraint_holds_def comp_def)
  moreover have "\<forall>k\<in>set (Inputs inp). \<sigma> (A_I i k) = 1 \<or> \<sigma> (A_I i k) = 0"
    using indicator_bounds(1) [OF sat i] by blast
  ultimately show ?thesis by (intro exactly_one_of_sum)
qed

lemma exactly_one_output:
  assumes sat: "satisfies \<sigma> (batch_model inp)" and i: "i < nat (NoBatches inp)"
  shows "\<exists>!k. k \<in> set (Outputs inp) \<and> \<sigma> (A_O i k) = 1"
proof -
  have "Constraint (SumEq (map (A_O i) (Outputs inp)) 1) [] \<in> set (constraints (batch_model inp))"
    unfolding in_constraints_batch_model using i by blast
  from satisfies_constraint [OF sat this]
  have "sum_list (map (\<lambda>k. \<sigma> (A_O i k)) (Outputs inp)) = 1"
    by (simp add: constraint_holds_def comp_def)
  moreover have "\<forall>k\<in>set (Outputs inp). \<sigma> (A_O i k) = 1 \<or> \<sigma> (A_O i k) = 0"
    using indicator_bounds(2) [OF sat i] by blast
  ultimately show ?thesis by (intro exactly_one_of_sum)
qed

lemma input_duration_enforced:
  assumes sat: "satisfies \<sigma> (batch_model inp)" and i: "i < nat (NoBatches inp)"
    and k: "k \<in> set (Inputs inp)" and on: "\<sigma> (A_I i k) = 1"
  shows "\<sigma> (D_INPUT i) = the (Tin inp k)"
proof -
  have "Constraint (VarEqConst (D_INPUT i) (the (Tin inp k))) [A_I i k] \<in> set (constraints (batch_model inp))"
    unfolding in_constraints_batch_model in_conditionals using i k by blast
  from satisfies_constraint [OF sat this] on show ?thesis by (simp add: constraint_holds_def)
qed

lemma output_duration_enforced:
  assumes sat: "satisfies \<sigma> (batch_model inp)" and i: "i < nat (NoBatches inp)"
    and k: "k \<in> set (Outputs inp)" and on: "\<sigma> (A_O i k) = 1"
  shows "\<sigma> (D_INPUT i) = the (Tout inp k)"
proof -
  have "Constraint (VarEqConst (D_INPUT i) (the (Tout inp k))) [A_O i k] \<in> set (constraints (batch_model inp))"
    unfolding in_constraints_batch_model in_conditionals using i k by blast
  from satisfies_constraint [OF sat this] on show ?thesis by (simp add: constraint_holds_def)
qed

section \<open>SchedulingRoman.py: exactly one option per batch\<close>

lemma exactly_one_indicator_per_batch_built:
  assumes "SchedulingRoman_build_model inp = Inr m"
  shows "filter (\<lambda>c. is_SumEq (ct_of c)) (constraints m) =
           map (\<lambda>i. Constraint (SumEq (map (A_I i) (Inputs inp)) 1) []) [0..<nat (NoBatches inp)] @
           map (\<lambda>i. Constraint (SumEq (map (A_O i) (Outputs inp)) 1) []) [0..<nat (NoBatches inp)] \<and>
         (\<forall>\<sigma> i. satisfies \<sigma> m \<and> i < nat (NoBatches inp) \<longrightarrow>
            (\<exists>!k. k \<in> set (Inputs inp) \<and> \<sigma> (A_I i k) = 1) \<and>
            (\<forall>k\<in>set (Inputs inp). \<sigma> (A_I i k) = 1 \<or> \<sigma> (A_I i k) = 0) \<and>
            (\<exists>!k. k \<in> set (Outputs inp) \<and> \<sigma> (A_O i k) = 1) \<and>
            (\<forall>k\<in>set (Outputs inp). \<sigma> (A_O i k) = 1 \<or> \<sigma> (A_O i k) = 0))"
proof -
  note b = SchedulingRoman_build_model_Inr [OF assms]
  show ?thesis
    unfolding b(1) filter_SumEq_batch_model
    using exactly_one_input exactly_one_output indicator_bounds by blast
qed

text \<open>
  Claim C7. For at least one batch and option names that all have a duration, the
  batch builder returns a model, and in it: the sum constraints are one
  \<open>sum(A_I[(i, k)] for k in inputs) == 1\<close> per batch followed by one
  \<open>sum(A_O[(i, k)] for k in outputs) == 1\<close> per batch, and no other; and in every
  assignment that satisfies the model every indicator is 0 or 1 and, for every batch,
  exactly one input indicator and exactly one output indicator are 1.
\<close>

theorem exactly_one_indicator_per_batch:
  assumes "0 < NoBatches inp"
    and "set (Inputs inp) \<subseteq> dom (Tin inp)"
    and "set (Outputs inp) \<subseteq> dom (Tout inp)"
  shows "\<exists>m. SchedulingRoman_build_model inp = Inr m \<and>
  (filter (\<lambda>c. is_SumEq (ct_of c)) (constraints m) =
              map (\<lambda>i. Constraint (SumEq (map (A_I i) (Inputs inp)) 1) []) [0..<nat (NoBatches inp)] @
              map (\<lambda>i. Constraint (SumEq (map (A_O i) (Outputs inp)) 1) []) [0..<nat (NoBatches inp)] \<and>
            (\<forall>\<sigma> i. satisfies \<sigma> m \<and> i < nat (NoBatches inp) \<longrightarrow>
               (\<exists>!k. k \<in> set (Inputs inp) \<and> \<sigma> (A_I i k) = 1) \<and>
               (\<forall>k\<in>set (Inputs inp). \<sigma> (A_I i k) = 1 \<or> \<sigma> (A_I i k) = 0) \<and>
               (\<exists>!k. k \<in> set (Outputs inp) \<and> \<sigma> (A_O i k) = 1) \<and>
               (\<forall>k\<in>set (Outputs inp). \<sigma> (A_O i k) = 1 \<or> \<sigma> (A_O i k) = 0)))"
proof -
  have built: "SchedulingRoman_build_model inp = Inr (batch_model inp)"
    using assms by (rule SchedulingRoman_build_model_total)
  show ?thesis
    by (rule exI [of _ "batch_model inp"], rule conjI [OF built exactly_one_indicator_per_batch_built [OF built]])
qed

theorem exactly_one_indicator_per_batch_witness:
  "SchedulingRoman_build_model input_data_main = Inr (batch_model input_data_main) \<and>
   satisfies staggered (batch_model input_data_main) \<and>
   (3 :: nat) < nat (NoBatches input_data_main) \<and>
   (\<exists>!k. k \<in> set (Inputs input_data_main) \<and> staggered (A_I 3 k) = 1) \<and>
   (\<exists>!k. k \<in> set (Outputs input_data_main) \<and> staggered (A_O 3 k) = 1) \<and>
   map (\<lambda>k. staggered (A_I 3 k)) (Inputs input_data_main) = [1, 0, 0] \<and>
   map (\<lambda>k. staggered (A_O 3 k)) (Outputs input_data_main) = [1, 0, 0, 0]"
proof -
  have i: "(3 :: nat) < nat (NoBatches input_data_main)" by (simp add: input_data_main_def)
  from model_exE [OF exactly_one_indicator_per_batch [OF input_data_main_ok] build_model_batch_main] staggered_satisfies i
  have "(\<exists>!k. k \<in> set (Inputs input_data_main) \<and> staggered (A_I 3 k) = 1) \<and>
        (\<exists>!k. k \<in> set (Outputs input_data_main) \<and> staggered (A_O 3 k) = 1)"
    by blast
  moreover have "map (\<lambda>k. staggered (A_I 3 k)) (Inputs input_data_main) = [1, 0, 0]"
    "map (\<lambda>k. staggered (A_O 3 k)) (Outputs input_data_main) = [1, 0, 0, 0]"
    by (simp_all add: input_data_main_def)
  ultimately show ?thesis using build_model_batch_main staggered_satisfies i by blast
qed

section \<open>SchedulingRoman.py: the conditional durations\<close>

lemma conditional_durations_are_implications_built:
  assumes "SchedulingRoman_build_model inp = Inr m"
  shows "(\<forall>i<nat (NoBatches inp). \<forall>k\<in>set (Inputs inp).
            \<exists>d. Tin inp k = Some d \<and>
                Constraint (VarEqConst (D_INPUT i) d) [A_I i k] \<in> set (constraints m)) \<and>
         (\<forall>i<nat (NoBatches inp). \<forall>k\<in>set (Outputs inp).
            \<exists>d. Tout inp k = Some d \<and>
                Constraint (VarEqConst (D_INPUT i) d) [A_O i k] \<in> set (constraints m)) \<and>
         (\<forall>c\<in>set (constraints m). is_VarEqConst (ct_of c) \<or> enforcement c \<noteq> [] \<longrightarrow>
            (\<exists>i<nat (NoBatches inp).
               (\<exists>k\<in>set (Inputs inp). \<exists>d. Tin inp k = Some d \<and>
                   c = Constraint (VarEqConst (D_INPUT i) d) [A_I i k]) \<or>
               (\<exists>k\<in>set (Outputs inp). \<exists>d. Tout inp k = Some d \<and>
                   c = Constraint (VarEqConst (D_INPUT i) d) [A_O i k]))) \<and>
         (\<forall>\<sigma> i. satisfies \<sigma> m \<and> i < nat (NoBatches inp) \<longrightarrow>
            (\<forall>k\<in>set (Inputs inp). \<sigma> (A_I i k) = 1 \<longrightarrow> Tin inp k = Some (\<sigma> (D_INPUT i))) \<and>
            (\<forall>k\<in>set (Outputs inp). \<sigma> (A_O i k) = 1 \<longrightarrow> Tout inp k = Some (\<sigma> (D_INPUT i))))"
proof (intro conjI allI impI ballI)
  note b = SchedulingRoman_build_model_Inr [OF assms]
  fix i k
  assume i: "i < nat (NoBatches inp)" and k: "k \<in> set (Inputs inp)"
  from k b(3) obtain d where d: "Tin inp k = Some d" by blast
  have "Constraint (VarEqConst (D_INPUT i) (the (Tin inp k))) [A_I i k] \<in> set (constraints m)"
    unfolding b(1) in_constraints_batch_model in_conditionals using i k by blast
  with d show "\<exists>d. Tin inp k = Some d \<and>
                Constraint (VarEqConst (D_INPUT i) d) [A_I i k] \<in> set (constraints m)"
    by simp
next
  note b = SchedulingRoman_build_model_Inr [OF assms]
  fix i k
  assume i: "i < nat (NoBatches inp)" and k: "k \<in> set (Outputs inp)"
  from k b(4) obtain d where d: "Tout inp k = Some d" by blast
  have "Constraint (VarEqConst (D_INPUT i) (the (Tout inp k))) [A_O i k] \<in> set (constraints m)"
    unfolding b(1) in_constraints_batch_model in_conditionals using i k by blast
  with d show "\<exists>d. Tout inp k = Some d \<and>
                Constraint (VarEqConst (D_INPUT i) d) [A_O i k] \<in> set (constraints m)"
    by simp
next
  note b = SchedulingRoman_build_model_Inr [OF assms]
  fix c
  assume c: "c \<in> set (constraints m)" and cond: "is_VarEqConst (ct_of c) \<or> enforcement c \<noteq> []"
  from c cond obtain i where i: "i < nat (NoBatches inp)" and ci: "c \<in> set (conditionals inp i)"
    unfolding b(1) in_constraints_batch_model by auto
  from ci consider k where "k \<in> set (Inputs inp)"
      "c = Constraint (VarEqConst (D_INPUT i) (the (Tin inp k))) [A_I i k]"
    | k where "k \<in> set (Outputs inp)"
      "c = Constraint (VarEqConst (D_INPUT i) (the (Tout inp k))) [A_O i k]"
    unfolding in_conditionals by blast
  then show "\<exists>i<nat (NoBatches inp).
               (\<exists>k\<in>set (Inputs inp). \<exists>d. Tin inp k = Some d \<and>
                   c = Constraint (VarEqConst (D_INPUT i) d) [A_I i k]) \<or>
               (\<exists>k\<in>set (Outputs inp). \<exists>d. Tout inp k = Some d \<and>
                   c = Constraint (VarEqConst (D_INPUT i) d) [A_O i k])"
  proof cases
    case 1
    from 1(1) b(3) obtain d where "Tin inp k = Some d" by blast
    with 1 i show ?thesis by (intro exI [of _ i]) auto
  next
    case 2
    from 2(1) b(4) obtain d where "Tout inp k = Some d" by blast
    with 2 i show ?thesis by (intro exI [of _ i]) auto
  qed
next
  note b = SchedulingRoman_build_model_Inr [OF assms]
  fix \<sigma> i k
  assume a: "satisfies \<sigma> m \<and> i < nat (NoBatches inp)" and k: "k \<in> set (Inputs inp)"
    and on: "\<sigma> (A_I i k) = 1"
  from k b(3) obtain d where d: "Tin inp k = Some d" by blast
  from input_duration_enforced [of \<sigma> inp i k] a k on d
  show "Tin inp k = Some (\<sigma> (D_INPUT i))" by (simp add: b(1))
next
  note b = SchedulingRoman_build_model_Inr [OF assms]
  fix \<sigma> i k
  assume a: "satisfies \<sigma> m \<and> i < nat (NoBatches inp)" and k: "k \<in> set (Outputs inp)"
    and on: "\<sigma> (A_O i k) = 1"
  from k b(4) obtain d where d: "Tout inp k = Some d" by blast
  from output_duration_enforced [of \<sigma> inp i k] a k on d
  show "Tout inp k = Some (\<sigma> (D_INPUT i))" by (simp add: b(1))
qed

text \<open>
  Claim C8. For at least one batch and option names that all have a duration, the
  batch builder returns a model, and in it: for every batch \<open>i\<close> and every
  input option \<open>k\<close> the model holds \<open>D_INPUT[i] == T_in[k]\<close> enforced only if
  \<open>A_I[i, k]\<close>, and for every output option \<open>k\<close> it holds \<open>D_INPUT[i] == T_out[k]\<close>, on
  the same duration variable, enforced only if \<open>A_O[i, k]\<close>; every constraint that
  equates a variable with a constant, and every constraint with an enforcement literal,
  is one of these, so no duration is fixed unconditionally; and in every satisfying
  assignment a true indicator forces \<open>D_INPUT[i]\<close> to the duration of its option.
\<close>

theorem conditional_durations_are_implications:
  assumes "0 < NoBatches inp"
    and "set (Inputs inp) \<subseteq> dom (Tin inp)"
    and "set (Outputs inp) \<subseteq> dom (Tout inp)"
  shows "\<exists>m. SchedulingRoman_build_model inp = Inr m \<and>
  ((\<forall>i<nat (NoBatches inp). \<forall>k\<in>set (Inputs inp).
               \<exists>d. Tin inp k = Some d \<and>
                   Constraint (VarEqConst (D_INPUT i) d) [A_I i k] \<in> set (constraints m)) \<and>
            (\<forall>i<nat (NoBatches inp). \<forall>k\<in>set (Outputs inp).
               \<exists>d. Tout inp k = Some d \<and>
                   Constraint (VarEqConst (D_INPUT i) d) [A_O i k] \<in> set (constraints m)) \<and>
            (\<forall>c\<in>set (constraints m). is_VarEqConst (ct_of c) \<or> enforcement c \<noteq> [] \<longrightarrow>
               (\<exists>i<nat (NoBatches inp).
                  (\<exists>k\<in>set (Inputs inp). \<exists>d. Tin inp k = Some d \<and>
                      c = Constraint (VarEqConst (D_INPUT i) d) [A_I i k]) \<or>
                  (\<exists>k\<in>set (Outputs inp). \<exists>d. Tout inp k = Some d \<and>
                      c = Constraint (VarEqConst (D_INPUT i) d) [A_O i k]))) \<and>
            (\<forall>\<sigma> i. satisfies \<sigma> m \<and> i < nat (NoBatches inp) \<longrightarrow>
               (\<forall>k\<in>set (Inputs inp). \<sigma> (A_I i k) = 1 \<longrightarrow> Tin inp k = Some (\<sigma> (D_INPUT i))) \<and>
               (\<forall>k\<in>set (Outputs inp). \<sigma> (A_O i k) = 1 \<longrightarrow> Tout inp k = Some (\<sigma> (D_INPUT i)))))"
proof -
  have built: "SchedulingRoman_build_model inp = Inr (batch_model inp)"
    using assms by (rule SchedulingRoman_build_model_total)
  show ?thesis
    by (rule exI [of _ "batch_model inp"], rule conjI [OF built conditional_durations_are_implications_built [OF built]])
qed

theorem conditional_durations_are_implications_witness:
  "SchedulingRoman_build_model input_data_main = Inr (batch_model input_data_main) \<and>
   satisfies staggered (batch_model input_data_main) \<and>
   (3 :: nat) < nat (NoBatches input_data_main) \<and>
   ''IN1'' \<in> set (Inputs input_data_main) \<and> staggered (A_I 3 ''IN1'') = 1 \<and>
   Tin input_data_main ''IN1'' = Some (staggered (D_INPUT 3)) \<and>
   ''ROP1'' \<in> set (Outputs input_data_main) \<and> staggered (A_O 3 ''ROP1'') = 1 \<and>
   Tout input_data_main ''ROP1'' = Some (staggered (D_INPUT 3)) \<and>
   ''IN3'' \<in> set (Inputs input_data_main) \<and> staggered (A_I 3 ''IN3'') = 0 \<and>
   Tin input_data_main ''IN3'' = Some 5 \<and> staggered (D_INPUT 3) = 1"
proof -
  have i: "(3 :: nat) < nat (NoBatches input_data_main)" by (simp add: input_data_main_def)
  have k: "''IN1'' \<in> set (Inputs input_data_main)" "''ROP1'' \<in> set (Outputs input_data_main)"
    "''IN3'' \<in> set (Inputs input_data_main)"
    by (simp_all add: input_data_main_def)
  have on: "staggered (A_I 3 ''IN1'') = 1" "staggered (A_O 3 ''ROP1'') = 1" by simp_all
  from model_exE [OF conditional_durations_are_implications [OF input_data_main_ok] build_model_batch_main] staggered_satisfies i k on
  have "Tin input_data_main ''IN1'' = Some (staggered (D_INPUT 3))"
    "Tout input_data_main ''ROP1'' = Some (staggered (D_INPUT 3))"
    by blast+
  moreover have "staggered (A_I 3 ''IN3'') = 0" "Tin input_data_main ''IN3'' = Some 5"
    "staggered (D_INPUT 3) = 1"
    by (simp_all add: input_data_main_def)
  ultimately show ?thesis using build_model_batch_main staggered_satisfies i k on by blast
qed

lemma batch_intervals:
  assumes "i < nat (NoBatches inp)"
  shows "IntervalVar (S_INPUT i) (Var (D_INPUT i)) (E_INPUT i) \<in> set (intervals (batch_model inp))"
    and "IntervalVar (S_BUFFER i) (Var (D_BUFFER i)) (E_BUFFER i) \<in> set (intervals (batch_model inp))"
    and "IntervalVar (S_OUTPUT i) (Var (D_OUTPUT i)) (E_OUTPUT i) \<in> set (intervals (batch_model inp))"
    and "IntervalVar (V_BUFFER_1 i) (Const (V inp)) (V_BUFFER_2 i) \<in> set (intervals (batch_model inp))"
  using assms by (simp_all add: batch_model_def Let_def)

lemma batch_time_variables:
  assumes "i < nat (NoBatches inp)"
  shows "(S_INPUT i, Tmin inp, Tmax inp) \<in> set (variables (batch_model inp))"
    and "(D_BUFFER i, 1, Tmax inp) \<in> set (variables (batch_model inp))"
proof -
  from assms have "(S_INPUT i, Tmin inp, Tmax inp) \<in>
      set (map (\<lambda>v. (v, Tmin inp, Tmax inp)) (map S_INPUT [0..<nat (NoBatches inp)]))"
    by simp
  then show "(S_INPUT i, Tmin inp, Tmax inp) \<in> set (variables (batch_model inp))"
    by (simp add: batch_model_def Let_def)
next
  from assms have "(D_BUFFER i, 1 :: int, Tmax inp) \<in>
      set (map (\<lambda>v. (v, 1 :: int, Tmax inp)) (map D_BUFFER [0..<nat (NoBatches inp)]))"
    by simp
  then show "(D_BUFFER i, 1, Tmax inp) \<in> set (variables (batch_model inp))"
    by (simp add: batch_model_def Let_def)
qed

lemma satisfies_interval:
  "satisfies \<sigma> m \<Longrightarrow> iv \<in> set (intervals m) \<Longrightarrow> interval_ok \<sigma> iv"
  unfolding satisfies_def by blast

lemma batch_chain:
  assumes sat: "satisfies \<sigma> (batch_model inp)" and i: "i < nat (NoBatches inp)"
  shows "\<sigma> (E_BUFFER i) = \<sigma> (S_INPUT i) + \<sigma> (D_INPUT i) + \<sigma> (D_BUFFER i)"
proof -
  from satisfies_interval [OF sat batch_intervals(1) [OF i]]
  have 1: "\<sigma> (S_INPUT i) + \<sigma> (D_INPUT i) = \<sigma> (E_INPUT i)" by (simp add: interval_ok_def)
  from satisfies_interval [OF sat batch_intervals(2) [OF i]]
  have 2: "\<sigma> (S_BUFFER i) + \<sigma> (D_BUFFER i) = \<sigma> (E_BUFFER i)" by (simp add: interval_ok_def)
  have "Constraint (VarEqVar (S_BUFFER i) (E_INPUT i)) [] \<in> set (constraints (batch_model inp))"
    unfolding in_constraints_batch_model using i by blast
  from satisfies_constraint [OF sat this]
  have 3: "\<sigma> (S_BUFFER i) = \<sigma> (E_INPUT i)" by (simp add: constraint_holds_def)
  from 1 2 3 show ?thesis by simp
qed

lemma main_objective_lower_bound:
  assumes sat: "satisfies \<sigma> (batch_model input_data_main)"
  shows "2 \<le> \<sigma> (E_BUFFER 9)"
proof -
  have i: "(9 :: nat) < nat (NoBatches input_data_main)" by (simp add: input_data_main_def)
  from exactly_one_input [OF sat i] obtain k where k: "k \<in> set (Inputs input_data_main)"
    and on: "\<sigma> (A_I 9 k) = 1" by blast
  from input_duration_enforced [OF sat i k on] k have d: "1 \<le> \<sigma> (D_INPUT 9)"
    by (auto simp: input_data_main_def)
  from satisfies_bounds [OF sat batch_time_variables(1) [OF i]]
  have s: "0 \<le> \<sigma> (S_INPUT 9)" by (simp add: input_data_main_def)
  from satisfies_bounds [OF sat batch_time_variables(2) [OF i]]
  have b: "1 \<le> \<sigma> (D_BUFFER 9)" by simp
  from batch_chain [OF sat i] d s b show ?thesis by simp
qed

section \<open>SchedulingRoman.py: the objective\<close>

lemma objective_is_last_batch_buffer_end_built:
  assumes "SchedulingRoman_build_model inp = Inr m"
  shows "objective m = Some (E_BUFFER (nat (NoBatches inp - 1))) \<and>
         (\<forall>i<nat (NoBatches inp).
            Constraint (VarEqVar (S_BUFFER i) (E_INPUT i)) [] \<in> set (constraints m) \<and>
            Constraint (VarEqVar (S_OUTPUT i) (E_BUFFER i)) [] \<in> set (constraints m)) \<and>
         (\<forall>c\<in>set (constraints m). is_VarEqVar (ct_of c) \<longrightarrow>
            (\<exists>i<nat (NoBatches inp).
               c = Constraint (VarEqVar (S_BUFFER i) (E_INPUT i)) [] \<or>
               c = Constraint (VarEqVar (S_OUTPUT i) (E_BUFFER i)) [])) \<and>
         (\<forall>c\<in>set (constraints m). \<not> is_GreaterEq (ct_of c) \<and> \<not> is_MaxEquality (ct_of c)) \<and>
         (inp = input_data_main \<longrightarrow>
            (\<exists>\<sigma>. satisfies \<sigma> m \<and>
                 (\<forall>\<sigma>'. satisfies \<sigma>' m \<longrightarrow> \<sigma> (E_BUFFER 9) \<le> \<sigma>' (E_BUFFER 9)) \<and>
                 \<sigma> (E_BUFFER 9) < \<sigma> (E_BUFFER 0)))"
proof (intro conjI)
  note b = SchedulingRoman_build_model_Inr [OF assms]
  show "objective m = Some (E_BUFFER (nat (NoBatches inp - 1)))"
    by (simp add: b(1) batch_model_def Let_def)
  show "\<forall>i<nat (NoBatches inp).
            Constraint (VarEqVar (S_BUFFER i) (E_INPUT i)) [] \<in> set (constraints m) \<and>
            Constraint (VarEqVar (S_OUTPUT i) (E_BUFFER i)) [] \<in> set (constraints m)"
    unfolding b(1) in_constraints_batch_model by blast
  show "\<forall>c\<in>set (constraints m). is_VarEqVar (ct_of c) \<longrightarrow>
            (\<exists>i<nat (NoBatches inp).
               c = Constraint (VarEqVar (S_BUFFER i) (E_INPUT i)) [] \<or>
               c = Constraint (VarEqVar (S_OUTPUT i) (E_BUFFER i)) [])"
    by (auto simp: b(1) in_constraints_batch_model in_conditionals)
  show "\<forall>c\<in>set (constraints m). \<not> is_GreaterEq (ct_of c) \<and> \<not> is_MaxEquality (ct_of c)"
    by (auto simp: b(1) in_constraints_batch_model in_conditionals)
  show "inp = input_data_main \<longrightarrow>
            (\<exists>\<sigma>. satisfies \<sigma> m \<and>
                 (\<forall>\<sigma>'. satisfies \<sigma>' m \<longrightarrow> \<sigma> (E_BUFFER 9) \<le> \<sigma>' (E_BUFFER 9)) \<and>
                 \<sigma> (E_BUFFER 9) < \<sigma> (E_BUFFER 0))"
  proof
    assume main: "inp = input_data_main"
    have "satisfies staggered m" using staggered_satisfies by (simp add: b(1) main)
    moreover have "\<forall>\<sigma>'. satisfies \<sigma>' m \<longrightarrow> staggered (E_BUFFER 9) \<le> \<sigma>' (E_BUFFER 9)"
      using main_objective_lower_bound by (simp add: b(1) main)
    moreover have "staggered (E_BUFFER 9) < staggered (E_BUFFER 0)" by simp
    ultimately show "\<exists>\<sigma>. satisfies \<sigma> m \<and>
                 (\<forall>\<sigma>'. satisfies \<sigma>' m \<longrightarrow> \<sigma> (E_BUFFER 9) \<le> \<sigma>' (E_BUFFER 9)) \<and>
                 \<sigma> (E_BUFFER 9) < \<sigma> (E_BUFFER 0)"
      by blast
  qed
qed

text \<open>
  Claim C10. For at least one batch and option names that all have a duration, the
  batch builder returns a model, and in it: the minimised objective is the
  single variable \<open>E_BUFFER[number_batches - 1]\<close>; every batch has its two chaining
  equalities \<open>S_BUFFER[i] == E_INPUT[i]\<close> and \<open>S_OUTPUT[i] == E_BUFFER[i]\<close>, which are
  the only equalities between variables; the model has no ordering and no maximum
  constraint, so nothing orders distinct batches or ties the objective to the other
  batches. For the script's own input some satisfying assignment, of least objective
  value even, gives batch 0 a buffer end time above the objective value.
\<close>

theorem objective_is_last_batch_buffer_end:
  assumes "0 < NoBatches inp"
    and "set (Inputs inp) \<subseteq> dom (Tin inp)"
    and "set (Outputs inp) \<subseteq> dom (Tout inp)"
  shows "\<exists>m. SchedulingRoman_build_model inp = Inr m \<and>
  (objective m = Some (E_BUFFER (nat (NoBatches inp - 1))) \<and>
            (\<forall>i<nat (NoBatches inp).
               Constraint (VarEqVar (S_BUFFER i) (E_INPUT i)) [] \<in> set (constraints m) \<and>
               Constraint (VarEqVar (S_OUTPUT i) (E_BUFFER i)) [] \<in> set (constraints m)) \<and>
            (\<forall>c\<in>set (constraints m). is_VarEqVar (ct_of c) \<longrightarrow>
               (\<exists>i<nat (NoBatches inp).
                  c = Constraint (VarEqVar (S_BUFFER i) (E_INPUT i)) [] \<or>
                  c = Constraint (VarEqVar (S_OUTPUT i) (E_BUFFER i)) [])) \<and>
            (\<forall>c\<in>set (constraints m). \<not> is_GreaterEq (ct_of c) \<and> \<not> is_MaxEquality (ct_of c)) \<and>
            (inp = input_data_main \<longrightarrow>
               (\<exists>\<sigma>. satisfies \<sigma> m \<and>
                    (\<forall>\<sigma>'. satisfies \<sigma>' m \<longrightarrow> \<sigma> (E_BUFFER 9) \<le> \<sigma>' (E_BUFFER 9)) \<and>
                    \<sigma> (E_BUFFER 9) < \<sigma> (E_BUFFER 0))))"
proof -
  have built: "SchedulingRoman_build_model inp = Inr (batch_model inp)"
    using assms by (rule SchedulingRoman_build_model_total)
  show ?thesis
    by (rule exI [of _ "batch_model inp"], rule conjI [OF built objective_is_last_batch_buffer_end_built [OF built]])
qed

theorem objective_is_last_batch_buffer_end_witness:
  "SchedulingRoman_build_model input_data_main = Inr (batch_model input_data_main) \<and>
   objective (batch_model input_data_main) = Some (E_BUFFER 9) \<and>
   satisfies staggered (batch_model input_data_main) \<and>
   staggered (E_BUFFER 9) = 2 \<and> staggered (E_BUFFER 0) = 20 \<and>
   (\<exists>\<sigma>. satisfies \<sigma> (batch_model input_data_main) \<and> \<sigma> (E_BUFFER 9) < \<sigma> (E_BUFFER 0))"
proof -
  note t = model_exE [OF objective_is_last_batch_buffer_end [OF input_data_main_ok] build_model_batch_main]
  from t have "objective (batch_model input_data_main) = Some (E_BUFFER (nat (NoBatches input_data_main - 1)))"
    by blast
  then have obj: "objective (batch_model input_data_main) = Some (E_BUFFER 9)"
    by (simp add: input_data_main_def)
  from t have ex: "\<exists>\<sigma>. satisfies \<sigma> (batch_model input_data_main) \<and> \<sigma> (E_BUFFER 9) < \<sigma> (E_BUFFER 0)"
    by blast
  have "staggered (E_BUFFER 9) = 2" "staggered (E_BUFFER 0) = 20" by simp_all
  with obj ex build_model_batch_main staggered_satisfies show ?thesis by blast
qed

section \<open>EmployeeScheduling.py: stopping the enumeration\<close>

lemma shift_loop_Inl: "fold (shift_step p val d n) ss (Inl e) = Inl e"
  by (induction ss) (simp_all add: shift_step_def)

lemma shift_loop_ok:
  assumes "\<forall>s\<in>set ss. shifts p (n, d, s) \<noteq> None"
  shows "\<exists>w out'. fold (shift_step p val d n) ss (Inr (w0, out)) = Inr (w, out')"
  using assms
proof (induction ss arbitrary: w0 out)
  case Nil
  then show ?case by simp
next
  case (Cons s ss)
  from Cons.prems obtain v where v: "shifts p (n, d, s) = Some v" by auto
  then obtain w1 out1 where "shift_step p val d n s (Inr (w0, out)) = Inr (w1, out1)"
    by (cases "val v = 0") (simp_all add: shift_step_def)
  with Cons show ?case by simp
qed

lemma nurse_loop_Inl: "fold (nurse_step p val d) ns (Inl e) = Inl e"
  by (induction ns) (simp_all add: nurse_step_def)

lemma nurse_loop_ok:
  assumes "\<forall>n\<in>set ns. \<forall>s<nat (num_shifts p). shifts p (n, d, s) \<noteq> None"
  shows "\<exists>out'. fold (nurse_step p val d) ns (Inr out) = Inr out'"
  using assms
proof (induction ns arbitrary: out)
  case Nil
  then show ?case by simp
next
  case (Cons n ns)
  from Cons.prems have "\<forall>s\<in>set [0..<nat (num_shifts p)]. shifts p (n, d, s) \<noteq> None" by simp
  from shift_loop_ok [OF this, of val False out]
  obtain w out1 where "fold (shift_step p val d n) [0..<nat (num_shifts p)] (Inr (False, out)) = Inr (w, out1)"
    by blast
  then obtain out2 where "nurse_step p val d n (Inr out) = Inr out2"
    by (cases w) (simp_all add: nurse_step_def)
  with Cons show ?case by simp
qed

lemma day_loop_Inl: "fold (day_step p val) ds (Inl e) = Inl e"
  by (induction ds) (simp_all add: day_step_def)

lemma day_loop_ok:
  assumes "\<forall>d\<in>set ds. \<forall>n<nat (num_nurses p). \<forall>s<nat (num_shifts p). shifts p (n, d, s) \<noteq> None"
  shows "\<exists>out'. fold (day_step p val) ds (Inr out) = Inr out'"
  using assms
proof (induction ds arbitrary: out)
  case Nil
  then show ?case by simp
next
  case (Cons d ds)
  from Cons.prems have "\<forall>n\<in>set [0..<nat (num_nurses p)]. \<forall>s<nat (num_shifts p). shifts p (n, d, s) \<noteq> None"
    by simp
  from nurse_loop_ok [OF this, of val "out @ [Day_line d]"]
  obtain out1 where "day_step p val d (Inr out) = Inr out1"
    by (auto simp: day_step_def)
  with Cons show ?case by simp
qed

lemma callback_ok:
  assumes "shifts_cover p" and "\<not> stop_requested p"
  shows "\<exists>p'. on_solution_callback p val = Inr p' \<and>
           solution_count p' = solution_count p + 1 \<and>
           solution_limit p' = solution_limit p \<and>
           shifts p' = shifts p \<and> num_nurses p' = num_nurses p \<and>
           num_days p' = num_days p \<and> num_shifts p' = num_shifts p \<and>
           (stop_requested p' \<longleftrightarrow> solution_limit p \<le> solution_count p + 1)"
proof -
  let ?p1 = "p\<lparr>solution_count := solution_count p + 1\<rparr>"
  have "\<forall>d\<in>set [0..<nat (num_days ?p1)]. \<forall>n<nat (num_nurses ?p1). \<forall>s<nat (num_shifts ?p1).
          shifts ?p1 (n, d, s) \<noteq> None"
    using assms(1) by (simp add: shifts_cover_def)
  from day_loop_ok [OF this, of val "printed ?p1 @ [Solution_line (solution_count ?p1)]"]
  obtain out2 where "fold (day_step ?p1 val) [0..<nat (num_days ?p1)]
      (Inr (printed ?p1 @ [Solution_line (solution_count ?p1)])) = Inr out2"
    by blast
  then show ?thesis using assms(2) by (simp add: on_solution_callback_def Let_def)
qed

lemma callback_cover:
  assumes "shifts_cover p" and "\<not> stop_requested p"
  shows "\<exists>p'. on_solution_callback p val = Inr p' \<and>
           solution_count p' = solution_count p + 1 \<and>
           solution_limit p' = solution_limit p \<and>
           shifts_cover p' \<and>
           (stop_requested p' \<longleftrightarrow> solution_limit p \<le> solution_count p + 1)"
proof -
  from callback_ok [OF assms, of val] obtain p' where
    p': "on_solution_callback p val = Inr p'" "solution_count p' = solution_count p + 1"
    "solution_limit p' = solution_limit p" "shifts p' = shifts p" "num_nurses p' = num_nurses p"
    "num_days p' = num_days p" "num_shifts p' = num_shifts p"
    "stop_requested p' \<longleftrightarrow> solution_limit p \<le> solution_count p + 1"
    by blast
  from assms(1) p'(4-7) have "shifts_cover p'" by (simp add: shifts_cover_def)
  with p' show ?thesis by blast
qed

lemma Solve_stops:
  assumes "shifts_cover p" and "\<not> stop_requested p"
  shows "\<exists>p'. Solve vals p = Inr p' \<and>
           solution_count p' =
             solution_count p + min (int (length vals)) (max 1 (solution_limit p - solution_count p)) \<and>
           (stop_requested p' \<longleftrightarrow>
              vals \<noteq> [] \<and> max 1 (solution_limit p - solution_count p) \<le> int (length vals)) \<and>
           Solve (take (nat (max 1 (solution_limit p - solution_count p))) vals) p = Inr p'"
  using assms
proof (induction vals arbitrary: p)
  case Nil
  then show ?case by simp
next
  case (Cons val vals)
  from callback_cover [OF Cons.prems, of val] obtain p1 where
    p1: "on_solution_callback p val = Inr p1" "solution_count p1 = solution_count p + 1"
    "solution_limit p1 = solution_limit p" "shifts_cover p1"
    "stop_requested p1 \<longleftrightarrow> solution_limit p \<le> solution_count p + 1"
    by blast
  let ?k = "max 1 (solution_limit p - solution_count p)"
  have tk: "take (nat ?k) (val # vals) = val # take (nat ?k - 1) vals"
    by (cases "nat ?k") simp_all
  show ?case
  proof (cases "solution_limit p \<le> solution_count p + 1")
    case True
    with p1 have stop: "stop_requested p1" by simp
    from True have k: "?k = 1" by simp
    from p1(1) stop have "Solve (val # vals) p = Inr p1" by simp
    moreover from p1(1) stop have "Solve (take (nat ?k) (val # vals)) p = Inr p1"
      unfolding tk by simp
    moreover have "solution_count p1 = solution_count p + min (int (length (val # vals))) ?k"
      using p1(2) k by simp
    moreover have "stop_requested p1 \<longleftrightarrow> val # vals \<noteq> [] \<and> ?k \<le> int (length (val # vals))"
      using stop k by simp
    ultimately show ?thesis by blast
  next
    case False
    with p1 have nostop: "\<not> stop_requested p1" by simp
    from False have k: "?k = solution_limit p - solution_count p"
      and k1: "max 1 (solution_limit p1 - solution_count p1) = ?k - 1"
      using p1(2,3) by simp_all
    from Cons.IH [OF p1(4) nostop] obtain p' where
      p': "Solve vals p1 = Inr p'"
      "solution_count p' = solution_count p1 + min (int (length vals)) (?k - 1)"
      "stop_requested p' \<longleftrightarrow> vals \<noteq> [] \<and> ?k - 1 \<le> int (length vals)"
      "Solve (take (nat (?k - 1)) vals) p1 = Inr p'"
      unfolding k1 by blast
    have nk: "nat ?k - 1 = nat (?k - 1)" by simp
    from p1(1) nostop p'(1) have "Solve (val # vals) p = Inr p'" by simp
    moreover from p1(1) nostop p'(4) have "Solve (take (nat ?k) (val # vals)) p = Inr p'"
      unfolding tk nk by simp
    moreover have "solution_count p' = solution_count p + min (int (length (val # vals))) ?k"
      using p'(2) p1(2) by simp
    moreover have "stop_requested p' \<longleftrightarrow> val # vals \<noteq> [] \<and> ?k \<le> int (length (val # vals))"
    proof (cases "vals = []")
      case True
      with p'(3) False show ?thesis by simp
    next
      case False
      with p'(3) k show ?thesis by auto
    qed
    ultimately show ?thesis by blast
  qed
qed

text \<open>
  Claim C9, as amended. Enumerating with a solution limit \<open>K\<close>, from a fresh printer
  whose dictionary covers the keys it reads: the callback requests the stop in the call
  in which the solution count reaches \<open>max(1, K)\<close>, the run ends there, and its final
  state, printed lines included, is that of the run on the first \<open>max(1, K)\<close> solutions
  alone, so no later solution is emitted or processed. For \<open>K \<ge> 1\<close> this is the stop
  after \<open>K\<close> solutions; for \<open>K \<le> 0\<close> one solution is still processed, because the
  callback compares only after counting a solution.
\<close>

theorem enumeration_stops_at_limit:
  assumes "shifts_cover (NursesPartialSolutionPrinter shifts_dict nurses days shifts_per_day K)"
  shows "\<exists>p. Solve vals (NursesPartialSolutionPrinter shifts_dict nurses days shifts_per_day K) = Inr p \<and>
           solution_count p = min (int (length vals)) (max 1 K) \<and>
           (stop_requested p \<longleftrightarrow> vals \<noteq> [] \<and> max 1 K \<le> int (length vals)) \<and>
           Solve (take (nat (max 1 K)) vals)
             (NursesPartialSolutionPrinter shifts_dict nurses days shifts_per_day K) = Inr p"
proof -
  let ?p = "NursesPartialSolutionPrinter shifts_dict nurses days shifts_per_day K"
  have init: "\<not> stop_requested ?p" "solution_count ?p = 0" "solution_limit ?p = K"
    by (simp_all add: NursesPartialSolutionPrinter_def)
  from Solve_stops [OF assms init(1), of vals] show ?thesis
    unfolding init by simp
qed

lemma unit_cover: "shifts_cover (NursesPartialSolutionPrinter unit_shifts 1 1 1 K)"
  by (simp add: shifts_cover_def NursesPartialSolutionPrinter_def unit_shifts_def)

lemma unit_callback:
  "on_solution_callback
     \<lparr>shifts = unit_shifts, num_nurses = 1, num_days = 1, num_shifts = 1, solution_count = c,
      solution_limit = K, printed = out, stop_requested = False\<rparr> nurse_works =
   Inr \<lparr>shifts = unit_shifts, num_nurses = 1, num_days = 1, num_shifts = 1, solution_count = c + 1,
        solution_limit = K,
        printed = out @ [Solution_line (c + 1), Day_line 0, Works_line 0 0] @
                  (if K \<le> c + 1 then [Stop_line K] else []),
        stop_requested = (K \<le> c + 1)\<rparr>"
  by (simp add: on_solution_callback_def Let_def day_step_def nurse_step_def shift_step_def
      unit_shifts_def nurse_works_def)

theorem enumeration_stops_at_limit_witness:
  "shifts_cover (NursesPartialSolutionPrinter unit_shifts 1 1 1 2) \<and>
   Solve [nurse_works, nurse_works, nurse_works] (NursesPartialSolutionPrinter unit_shifts 1 1 1 2) =
     Inr \<lparr>shifts = unit_shifts, num_nurses = 1, num_days = 1, num_shifts = 1, solution_count = 2,
          solution_limit = 2,
          printed = [Solution_line 1, Day_line 0, Works_line 0 0,
                     Solution_line 2, Day_line 0, Works_line 0 0, Stop_line 2],
          stop_requested = True\<rparr> \<and>
   Solve (take (nat (max 1 2)) [nurse_works, nurse_works, nurse_works])
     (NursesPartialSolutionPrinter unit_shifts 1 1 1 2) =
   Solve [nurse_works, nurse_works, nurse_works] (NursesPartialSolutionPrinter unit_shifts 1 1 1 2)"
proof -
  have run: "Solve [nurse_works, nurse_works, nurse_works] (NursesPartialSolutionPrinter unit_shifts 1 1 1 2) =
     Inr \<lparr>shifts = unit_shifts, num_nurses = 1, num_days = 1, num_shifts = 1, solution_count = 2,
          solution_limit = 2,
          printed = [Solution_line 1, Day_line 0, Works_line 0 0,
                     Solution_line 2, Day_line 0, Works_line 0 0, Stop_line 2],
          stop_requested = True\<rparr>"
    by (simp add: NursesPartialSolutionPrinter_def unit_callback)
  from enumeration_stops_at_limit [OF unit_cover [of 2], where vals = "[nurse_works, nurse_works, nurse_works]"]
  have "Solve (take (nat (max 1 2)) [nurse_works, nurse_works, nurse_works])
     (NursesPartialSolutionPrinter unit_shifts 1 1 1 2) =
   Solve [nurse_works, nurse_works, nurse_works] (NursesPartialSolutionPrinter unit_shifts 1 1 1 2)"
    by auto
  with run unit_cover show ?thesis by blast
qed

text \<open>
  The claim as stated fails for the limit 0: the count is 0, the limit, from the start,
  yet the first of two solutions is emitted, counted and printed before the stop.
\<close>

theorem limit_zero_still_processes_counterexample:
  "Solve [nurse_works, nurse_works] (NursesPartialSolutionPrinter unit_shifts 1 1 1 0) =
     Inr \<lparr>shifts = unit_shifts, num_nurses = 1, num_days = 1, num_shifts = 1, solution_count = 1,
          solution_limit = 0,
          printed = [Solution_line 1, Day_line 0, Works_line 0 0, Stop_line 0],
          stop_requested = True\<rparr>"
  by (simp add: NursesPartialSolutionPrinter_def unit_callback)

end
